theory Spec2Isabelle
  imports Complex_Main "HOL-Library.Log_Nat"
begin

section \<open>Numbers\<close>

text \<open>
  The script computes with JavaScript numbers, which are IEEE 754 doubles. A finite
  double is modelled by the real number it denotes, and \<open>Math.PI\<close>, \<open>Math.sin\<close> and
  \<open>Math.cos\<close> are \<open>pi\<close>, \<open>sin\<close> and \<open>cos\<close>. Rounding to the nearest double is written out
  (\<open>fl64\<close>) where a result of the construction is compared with the end of an interval
  or where the loop accumulates: the placement radius, the speed, the positions of the
  point cloud, which the \<open>Float32Array\<close> rounds once more to single precision
  (\<open>fl32\<close>), and the additions to the rotation of a shape. The other expressions are
  the expressions of the source, read over the reals.

  The only division of the background code, \<open>window.innerWidth / window.innerHeight\<close>,
  can leave the finite numbers, so its result has its own type: in HOL \<open>x / 0 = 0\<close>, in
  JavaScript \<open>0 / 0\<close> is \<open>NaN\<close> and \<open>x / 0\<close> is an infinity.
\<close>

datatype jsnum = Finite real | PosInfinity | NegInfinity | NaN

definition js_div :: "real \<Rightarrow> real \<Rightarrow> jsnum" where
  "js_div a b =
     (if b \<noteq> 0 then Finite (a / b)
      else if a = 0 then NaN
      else if 0 < a then PosInfinity
      else NegInfinity)"

text \<open>
  \<open>Math.random()\<close>: the function takes the sequence of values the calls return, in call
  order; \<open>rnd k\<close> is what call number \<open>k\<close> of \<open>initThreeBackground\<close> returns. The
  platform promises \<open>0 \<le> rnd k < 1\<close>.
\<close>

definition unit_draws :: "(nat \<Rightarrow> real) \<Rightarrow> bool" where
  "unit_draws rnd = (\<forall>k. 0 \<le> rnd k \<and> rnd k < 1)"

subsection \<open>Rounding to a binary format\<close>

text \<open>
  Round to nearest, ties to even, as IEEE 754 prescribes for the arithmetic of doubles
  and for the conversion of a double to single precision. A format has \<open>p\<close> binary
  digits and least exponent \<open>emin\<close>; a number other than 0 is scaled by the power of
  two of its last place (that of the least exponent for a subnormal number), rounded
  to an integer and scaled back. Overflow to an infinity is not modelled: no number of
  the background code comes near \<open>2 ^ 1024\<close>, nor a stored one near \<open>2 ^ 128\<close>.
\<close>

definition round_even :: "real \<Rightarrow> int" where
  "round_even q =
     (let f = \<lfloor>q\<rfloor>
      in if q - of_int f < 1 / 2 then f
         else if 1 / 2 < q - of_int f then f + 1
         else if even f then f else f + 1)"

text \<open>
  The exponent of the binade of a positive number \<open>x\<close>, the integer \<open>E\<close> with
  \<open>2 ^ E \<le> x < 2 ^ (E + 1)\<close>, from the number of binary digits of an integer.
\<close>

definition binade :: "real \<Rightarrow> int" where
  "binade x = (if 1 \<le> x then bitlen \<lfloor>x\<rfloor> - 1 else - bitlen (\<lceil>1 / x\<rceil> - 1))"

definition ulp_exponent :: "nat \<Rightarrow> int \<Rightarrow> real \<Rightarrow> int" where
  "ulp_exponent p emin x = max (binade \<bar>x\<bar>) emin - (int p - 1)"

definition round_binary :: "nat \<Rightarrow> int \<Rightarrow> real \<Rightarrow> real" where
  "round_binary p emin x =
     sgn x * of_int (round_even (\<bar>x\<bar> / 2 powi ulp_exponent p emin x)) *
     2 powi ulp_exponent p emin x"

text \<open>Doubles have 53 digits and least exponent -1022, single precision 24 and -126.\<close>

definition fl64 :: "real \<Rightarrow> real" where
  "fl64 = round_binary 53 (- 1022)"

definition fl32 :: "real \<Rightarrow> real" where
  "fl32 = round_binary 24 (- 126)"

text \<open>The numbers of a format: an integer of \<open>p\<close> digits times a power of two.\<close>

definition representable :: "nat \<Rightarrow> int \<Rightarrow> real \<Rightarrow> bool" where
  "representable p emin x =
     (\<exists>m j. x = of_int m * 2 powi j \<and> \<bar>m\<bar> < 2 ^ p \<and> emin - (int p - 1) \<le> j)"

text \<open>The sum the statement \<open>a += r\<close> leaves after \<open>n\<close> executions, starting from 0.\<close>

fun repeated_add :: "real \<Rightarrow> nat \<Rightarrow> real" where
  "repeated_add r 0 = 0"
| "repeated_add r (Suc n) = fl64 (repeated_add r n + r)"

section \<open>Data model\<close>

text \<open>A \<open>THREE.Vector3\<close> or \<open>THREE.Euler\<close>: three numbers, all 0 in a new object.\<close>

record vector3 =
  vec_x :: real
  vec_y :: real
  vec_z :: real

definition zero3 :: vector3 where
  "zero3 = \<lparr>vec_x = 0, vec_y = 0, vec_z = 0\<rparr>"

record object3d =
  position :: vector3
  rotation :: vector3

definition new_object3d :: object3d where
  "new_object3d = \<lparr>position = zero3, rotation = zero3\<rparr>"

datatype geometry =
    TetrahedronGeometry real
  | BoxGeometry real real real
  | TorusGeometry real real nat nat
  | OctahedronGeometry real
  | IcosahedronGeometry real nat

text \<open>The object literal stored in \<open>mesh.userData\<close> (lines 107-112).\<close>

record user_data =
  initialY :: real
  speed :: real
  offset :: real
  rotSpeed :: real

record mesh = object3d +
  geom :: geometry
  userData :: user_data

text \<open>
  The projection matrix is computed by the library from the camera's four parameters;
  it is kept as the term of the parameters it was last computed from.
\<close>

datatype projection = Perspective real jsnum real real

record camera =
  fov :: real
  aspect :: jsnum
  near :: real
  far :: real
  camera_z :: real
  projectionMatrix :: projection

record renderer =
  width :: int
  height :: int
  pixelRatio :: real

record point_light =
  light_color :: nat
  light_intensity :: real
  light_distance :: real
  light_position :: vector3

record ambient_light =
  ambient_color :: nat
  ambient_intensity :: real

text \<open>What the script reads from \<open>window\<close>.\<close>

record window =
  innerWidth :: int
  innerHeight :: int
  devicePixelRatio :: real

text \<open>The entities the closures \<open>tick\<close> and the resize listener capture.\<close>

record three_scene =
  camera :: camera
  renderer :: renderer
  globe :: object3d
  globeGeometry :: geometry
  posArray :: "real list"
  particlesMesh :: object3d
  light :: point_light
  ambientLight :: ambient_light
  shapes :: "mesh list"

text \<open>
  The page as the background code sees it: the scene once it is built, and a count of
  each call that reaches the platform (\<open>renderer.render\<close>,
  \<open>window.requestAnimationFrame\<close>, \<open>window.addEventListener('resize', ...)\<close>).
\<close>

record page =
  background :: "three_scene option"
  frames_rendered :: nat
  frames_requested :: nat
  resize_listeners :: nat

datatype element = Element string

type_synonym document = "string \<Rightarrow> element option"

definition querySelector :: "document \<Rightarrow> string \<Rightarrow> element option" where
  "querySelector doc sel = doc sel"

section \<open>Construction (lines 14-116)\<close>

definition updateProjectionMatrix :: "camera \<Rightarrow> camera" where
  "updateProjectionMatrix c =
     c\<lparr>projectionMatrix := Perspective (fov c) (aspect c) (near c) (far c)\<rparr>"

definition PerspectiveCamera :: "real \<Rightarrow> jsnum \<Rightarrow> real \<Rightarrow> real \<Rightarrow> camera" where
  "PerspectiveCamera f a n fa =
     \<lparr>fov = f, aspect = a, near = n, far = fa, camera_z = 0,
      projectionMatrix = Perspective f a n fa\<rparr>"

definition setSize :: "int \<Rightarrow> int \<Rightarrow> renderer \<Rightarrow> renderer" where
  "setSize w h r = r\<lparr>width := w, height := h\<rparr>"

definition setPixelRatio :: "real \<Rightarrow> renderer \<Rightarrow> renderer" where
  "setPixelRatio v r = r\<lparr>pixelRatio := v\<rparr>"

text \<open>
  A new \<open>WebGLRenderer\<close> has the size of its canvas (300 by 150 unless the page says
  otherwise) and pixel ratio 1, until told otherwise.
\<close>

definition WebGLRenderer :: renderer where
  "WebGLRenderer = \<lparr>width = 300, height = 150, pixelRatio = 1\<rparr>"

definition particlesCount :: nat where
  "particlesCount = 700"

text \<open>
  The loop of lines 49-52: entry \<open>i\<close> is filled from draw \<open>i\<close>. The subtraction and the
  multiplication are those of doubles, and the store into the \<open>Float32Array\<close> rounds
  the product to single precision.
\<close>

definition fill_posArray :: "(nat \<Rightarrow> real) \<Rightarrow> real list" where
  "fill_posArray rnd =
     map (\<lambda>i. fl32 (fl64 (fl64 (rnd i - 0.5) * 100))) [0..<particlesCount * 3]"

definition shapeGeometries :: "geometry list" where
  "shapeGeometries =
     [TetrahedronGeometry 1.5, BoxGeometry 1.5 2 0.2, TorusGeometry 1 0.3 16 50,
      OctahedronGeometry 1.5]"

text \<open>
  The body of the loop of lines 93-116 for index \<open>i\<close>. The point-cloud loop has used
  \<open>particlesCount * 3\<close> draws; each shape uses five more, in the order of the source:
  radius, height, speed, offset, rotSpeed. The radius and the speed are sums and
  products of doubles.
\<close>

definition shape_angle :: "nat \<Rightarrow> real" where
  "shape_angle i = (real i / 5) * pi * 2"

definition shape_radius :: "(nat \<Rightarrow> real) \<Rightarrow> nat \<Rightarrow> real" where
  "shape_radius rnd i = fl64 (15 + fl64 (rnd (particlesCount * 3 + 5 * i) * 5))"

definition create_shape :: "(nat \<Rightarrow> real) \<Rightarrow> nat \<Rightarrow> mesh" where
  "create_shape rnd i =
     (let k = particlesCount * 3 + 5 * i;
          g = shapeGeometries ! (i mod length shapeGeometries);
          angle = shape_angle i;
          radius = shape_radius rnd i;
          p = \<lparr>vec_x = cos angle * radius,
               vec_y = (rnd (k + 1) - 0.5) * 10,
               vec_z = sin angle * radius\<rparr>
      in \<lparr>position = p, rotation = zero3, geom = g,
          userData = \<lparr>initialY = vec_y p,
                      speed = fl64 (0.5 + fl64 (rnd (k + 2) * 0.5)),
                      offset = rnd (k + 3) * pi * 2,
                      rotSpeed = (rnd (k + 4) - 0.5) * 0.02\<rparr>\<rparr>)"

definition build_scene :: "window \<Rightarrow> (nat \<Rightarrow> real) \<Rightarrow> three_scene" where
  "build_scene win rnd =
     \<lparr>camera =
        (PerspectiveCamera 75
           (js_div (of_int (innerWidth win)) (of_int (innerHeight win))) 0.1 1000)
        \<lparr>camera_z := 30\<rparr>,
      renderer =
        setPixelRatio (min (devicePixelRatio win) 2)
          (setSize (innerWidth win) (innerHeight win) WebGLRenderer),
      globe = new_object3d,
      globeGeometry = IcosahedronGeometry 10 2,
      posArray = fill_posArray rnd,
      particlesMesh = new_object3d,
      light =
        \<lparr>light_color = 0xFFD700, light_intensity = 1, light_distance = 100,
         light_position = \<lparr>vec_x = 10, vec_y = 10, vec_z = 10\<rparr>\<rparr>,
      ambientLight = \<lparr>ambient_color = 0x404040, ambient_intensity = 2\<rparr>,
      shapes = map (create_shape rnd) [0..<5]\<rparr>"

section \<open>The animation loop (lines 121-147)\<close>

text \<open>
  The body of \<open>shapes.forEach\<close> (lines 133-138). Each \<open>+=\<close> on a rotation is an addition
  of doubles.
\<close>

definition animate_shape :: "real \<Rightarrow> mesh \<Rightarrow> mesh" where
  "animate_shape elapsedTime shape =
     (let d = userData shape
      in shape
         \<lparr>position := (position shape)
            \<lparr>vec_y := initialY d + sin (elapsedTime * speed d + offset d) * 1.5\<rparr>,
          rotation := (rotation shape)
            \<lparr>vec_x := fl64 (vec_x (rotation shape) + rotSpeed d),
             vec_y := fl64 (vec_y (rotation shape) + rotSpeed d)\<rparr>\<rparr>)"

text \<open>Lines 122-139: what one iteration writes to the captured entities.\<close>

definition tick :: "real \<Rightarrow> three_scene \<Rightarrow> three_scene" where
  "tick elapsedTime sc =
     sc\<lparr>globe := (globe sc)
          \<lparr>rotation := (rotation (globe sc))\<lparr>vec_y := elapsedTime * 0.05\<rparr>\<rparr>,
        particlesMesh := (particlesMesh sc)
          \<lparr>rotation := (rotation (particlesMesh sc))
             \<lparr>vec_y := - elapsedTime * 0.02, vec_x := elapsedTime * 0.01\<rparr>\<rparr>,
        shapes := map (animate_shape elapsedTime) (shapes sc)\<rparr>"

text \<open>
  The whole callback, as the page sees it: the writes of \<open>tick\<close>, one
  \<open>renderer.render\<close> and one \<open>requestAnimationFrame(tick)\<close>. The argument is the value
  \<open>clock.getElapsedTime()\<close> returns in this iteration.
\<close>

definition tick_callback :: "real \<Rightarrow> page \<Rightarrow> page" where
  "tick_callback elapsedTime p =
     (case background p of
        None \<Rightarrow> p
      | Some sc \<Rightarrow>
          p\<lparr>background := Some (tick elapsedTime sc),
            frames_rendered := Suc (frames_rendered p),
            frames_requested := Suc (frames_requested p)\<rparr>)"

section \<open>The resize listener (lines 152-156)\<close>

definition onResize :: "int \<Rightarrow> int \<Rightarrow> three_scene \<Rightarrow> three_scene" where
  "onResize w h sc =
     sc\<lparr>camera := updateProjectionMatrix ((camera sc)\<lparr>aspect := js_div (of_int w) (of_int h)\<rparr>),
        renderer := setSize w h (renderer sc)\<rparr>"

section \<open>Initialisation (lines 10-157)\<close>

text \<open>
  \<open>t0\<close> is the reading of the clock in the first, direct call \<open>tick()\<close> of line 149
  (the library's clock starts at its first reading, which is 0).
\<close>

definition initThreeBackground ::
  "document \<Rightarrow> window \<Rightarrow> (nat \<Rightarrow> real) \<Rightarrow> real \<Rightarrow> page \<Rightarrow> page" where
  "initThreeBackground doc win rnd t0 p =
     (case querySelector doc ''#bg-canvas'' of
        None \<Rightarrow> p
      | Some canvas \<Rightarrow>
          (let p1 = p\<lparr>background := Some (build_scene win rnd)\<rparr>;
               p2 = tick_callback t0 p1
           in p2\<lparr>resize_listeners := Suc (resize_listeners p2)\<rparr>))"

section \<open>Events of the platform\<close>

datatype event = Frame real | Resize int int

fun handle :: "event \<Rightarrow> three_scene \<Rightarrow> three_scene" where
  "handle (Frame t) sc = tick t sc"
| "handle (Resize w h) sc = onResize w h sc"

fun run :: "event list \<Rightarrow> three_scene \<Rightarrow> three_scene" where
  "run [] sc = sc"
| "run (e # es) sc = run es (handle e sc)"

fun dispatch :: "event \<Rightarrow> page \<Rightarrow> page" where
  "dispatch (Frame t) p = tick_callback t p"
| "dispatch (Resize w h) p =
     (case background p of
        None \<Rightarrow> p
      | Some sc \<Rightarrow> p\<lparr>background := Some (onResize w h sc)\<rparr>)"

fun run_page :: "event list \<Rightarrow> page \<Rightarrow> page" where
  "run_page [] p = p"
| "run_page (e # es) p = run_page es (dispatch e p)"

text \<open>A loop that only draws frames, at the given clock readings.\<close>

definition run_ticks :: "real list \<Rightarrow> three_scene \<Rightarrow> three_scene" where
  "run_ticks ts sc = run (map Frame ts) sc"

definition new_page :: page where
  "new_page = \<lparr>background = None, frames_rendered = 0, frames_requested = 0, resize_listeners = 0\<rparr>"

text \<open>Concrete inputs for the examples.\<close>

definition draws_half :: "nat \<Rightarrow> real" where
  "draws_half k = 1 / 2"

definition draws_low :: "nat \<Rightarrow> real" where
  "draws_low k = (if k = particlesCount * 3 + 3 then 3 / 4 else 0)"

text \<open>
  Draws next to 1: \<open>1 - 1 / 2 ^ 26\<close> for the point cloud, the greatest double below 1
  for the speed of shape 0, and the greatest multiple of \<open>1 / 2 ^ 52\<close> below 1 elsewhere.
\<close>

definition draws_high :: "nat \<Rightarrow> real" where
  "draws_high k =
     (if k < particlesCount * 3 then 1 - 1 / 2 ^ 26
      else if k = particlesCount * 3 + 2 then 1 - 1 / 2 ^ 53
      else 1 - 1 / 2 ^ 52)"

definition desktop :: window where
  "desktop = \<lparr>innerWidth = 1920, innerHeight = 1080, devicePixelRatio = 3\<rparr>"

definition home_page :: document where
  "home_page sel = (if sel = ''#bg-canvas'' then Some (Element ''canvas'') else None)"

definition other_page :: document where
  "other_page sel = None"

text \<open>What no event changes in a shape.\<close>

definition frozen_part :: "mesh \<Rightarrow> real \<times> real \<times> real \<times> geometry \<times> user_data" where
  "frozen_part s = (vec_x (position s), vec_z (position s), vec_z (rotation s), geom s, userData s)"

text \<open>A shape is within the amplitude of the bob of its height of construction.\<close>

definition bob_bounded :: "mesh \<Rightarrow> bool" where
  "bob_bounded s = (\<bar>vec_y (position s) - initialY (userData s)\<bar> \<le> 1.5)"

section \<open>Facts about rounding\<close>

lemma round_even_error: "\<bar>of_int (round_even q) - q\<bar> \<le> 1 / 2"
  unfolding round_even_def Let_def by (auto; linarith)

lemma round_even_of_int: "round_even (of_int n) = n"
  by (simp add: round_even_def)

lemma round_even_le: "q \<le> of_int M \<Longrightarrow> round_even q \<le> M"
proof -
  assume a: "q \<le> of_int M"
  have "of_int (round_even q) \<le> q + 1 / 2"
    using round_even_error [of q] by linarith
  then have "(of_int (round_even q) :: real) < of_int M + 1"
    using a by linarith
  then have "(of_int (round_even q) :: real) < of_int (M + 1)"
    by simp
  then have "round_even q < M + 1"
    by (simp only: of_int_less_iff)
  then show ?thesis by simp
qed

lemma round_even_ge: "of_int M \<le> q \<Longrightarrow> M \<le> round_even q"
proof -
  assume a: "of_int M \<le> q"
  have "q - 1 / 2 \<le> of_int (round_even q)"
    using round_even_error [of q] by linarith
  then have "(of_int (M - 1) :: real) < of_int (round_even q)"
    using a by simp
  then have "M - 1 < round_even q"
    by (simp only: of_int_less_iff)
  then show ?thesis by simp
qed

lemma round_even_nearest:
  "of_int n - 1 / 2 < q \<Longrightarrow> q < of_int n + 1 / 2 \<Longrightarrow> round_even q = n"
proof -
  assume a: "of_int n - 1 / 2 < q" and b: "q < of_int n + 1 / 2"
  have e: "\<bar>of_int (round_even q) - q\<bar> \<le> 1 / 2"
    by (rule round_even_error)
  have "(of_int (round_even q) :: real) < of_int n + 1"
    using e b by linarith
  then have "(of_int (round_even q) :: real) < of_int (n + 1)" by simp
  then have u: "round_even q < n + 1" by (simp only: of_int_less_iff)
  have "(of_int n :: real) - 1 < of_int (round_even q)"
    using e a by linarith
  then have "(of_int (n - 1) :: real) < of_int (round_even q)" by simp
  then have l: "n - 1 < round_even q" by (simp only: of_int_less_iff)
  show ?thesis using u l by simp
qed

lemma round_even_tie_odd: "odd f \<Longrightarrow> round_even (of_int f + 1 / 2) = f + 1"
proof -
  assume o: "odd f"
  have "\<lfloor>of_int f + (1 / 2 :: real)\<rfloor> = f"
    by linarith
  then show ?thesis
    using o by (simp add: round_even_def Let_def)
qed

lemma two_powr_of_int: "(2::real) powr (of_int k) = 2 powi k"
  by (simp add: powr_real_of_int power_int_def power_one_over inverse_eq_divide)

lemma two_powi_floor_log:
  assumes "0 < x"
  shows "2 powi \<lfloor>log 2 x\<rfloor> \<le> x \<and> x < 2 powi (\<lfloor>log 2 x\<rfloor> + 1)"
proof -
  have "2 powr (of_int \<lfloor>log 2 x\<rfloor>) \<le> x \<and> x < 2 powr (of_int (\<lfloor>log 2 x\<rfloor> + 1))"
    using floor_log_eq_powr_iff [of x 2 "\<lfloor>log 2 x\<rfloor>"] assms by simp
  then show ?thesis
    by (simp only: two_powr_of_int)
qed

lemma floor_log_two_eq:
  assumes "2 powi E \<le> x" and "x < 2 powi (E + 1)"
  shows "\<lfloor>log 2 x\<rfloor> = E"
proof -
  have "(0::real) < 2 powi E"
    by simp
  then have pos: "0 < x"
    using assms(1) by linarith
  have "2 powr (of_int E) \<le> x \<and> x < 2 powr (of_int (E + 1))"
    using assms by (simp only: two_powr_of_int)
  then have "2 powr (of_int E) \<le> x \<and> x < 2 powr (of_int E + 1)"
    by simp
  then show ?thesis
    using floor_log_eq_powr_iff [of x 2 E] pos by simp
qed

lemma bitlen_real_bounds:
  assumes "0 < m"
  shows "1 \<le> bitlen m \<and> 2 powi (bitlen m - 1) \<le> real_of_int m \<and>
         real_of_int m + 1 \<le> 2 powi (bitlen m)"
proof -
  let ?b = "bitlen m"
  have b: "1 \<le> ?b"
    using assms by (simp add: bitlen_alt_def)
  have bounds: "2 ^ nat (?b - 1) \<le> m" "m < 2 ^ nat ?b"
    using bitlen_bounds [OF assms] by simp_all
  have "real_of_int (2 ^ nat (?b - 1)) \<le> real_of_int m"
    using bounds(1) by (simp only: of_int_le_iff)
  then have lo: "2 powi (?b - 1) \<le> real_of_int m"
    using b by (simp add: power_int_nonneg_exp)
  have "m + 1 \<le> 2 ^ nat ?b"
    using bounds(2) by simp
  then have "real_of_int (m + 1) \<le> real_of_int (2 ^ nat ?b)"
    by (simp only: of_int_le_iff)
  then have hi: "real_of_int m + 1 \<le> 2 powi ?b"
    using b by (simp add: power_int_nonneg_exp)
  show ?thesis
    using b lo hi by simp
qed

lemma binade_floor_log:
  assumes "0 < x"
  shows "binade x = \<lfloor>log 2 x\<rfloor>"
proof (cases "1 \<le> x")
  case True
  let ?m = "\<lfloor>x\<rfloor>"
  have m: "0 < ?m"
    using True by simp
  note B = bitlen_real_bounds [OF m]
  have fl: "real_of_int ?m \<le> x" "x < real_of_int ?m + 1"
    by linarith+
  have "2 powi (bitlen ?m - 1) \<le> x"
    using B fl(1) by linarith
  moreover have "x < 2 powi (bitlen ?m)"
    using B fl(2) by linarith
  then have "x < 2 powi (bitlen ?m - 1 + 1)"
    by simp
  ultimately have "\<lfloor>log 2 x\<rfloor> = bitlen ?m - 1"
    by (rule floor_log_two_eq)
  then show ?thesis
    using True by (simp add: binade_def)
next
  case False
  let ?y = "1 / x"
  let ?k = "\<lceil>?y\<rceil> - 1"
  have y: "1 < ?y"
    using False assms by simp
  then have "1 < \<lceil>?y\<rceil>"
    by linarith
  then have k: "0 < ?k"
    by simp
  note B = bitlen_real_bounds [OF k]
  have ky: "real_of_int ?k < ?y" "?y \<le> real_of_int ?k + 1"
    by linarith+
  have ylo: "2 powi (bitlen ?k - 1) < ?y"
    using B ky by linarith
  have yhi: "?y \<le> 2 powi (bitlen ?k)"
    using B ky by linarith
  have "1 \<le> 2 powi (bitlen ?k) * x"
    using yhi assms by (simp add: field_simps)
  then have "1 / 2 powi (bitlen ?k) \<le> x"
    by (simp add: field_simps)
  then have lo: "2 powi (- bitlen ?k) \<le> x"
    by (simp only: power_int_minus_divide)
  have "2 powi (bitlen ?k - 1) * x < 1"
    using ylo assms by (simp add: field_simps)
  then have "x < 1 / 2 powi (bitlen ?k - 1)"
    by (simp add: field_simps)
  then have "x < 2 powi (- (bitlen ?k - 1))"
    by (simp only: power_int_minus_divide)
  then have hi: "x < 2 powi (- bitlen ?k + 1)"
    by (simp add: algebra_simps)
  have "\<lfloor>log 2 x\<rfloor> = - bitlen ?k"
    using lo hi by (rule floor_log_two_eq)
  then show ?thesis
    using False by (simp add: binade_def)
qed

lemma ulp_exponent_log:
  "x \<noteq> 0 \<Longrightarrow> ulp_exponent p emin x = max \<lfloor>log 2 \<bar>x\<bar>\<rfloor> emin - (int p - 1)"
  by (simp add: ulp_exponent_def binade_floor_log)

lemma two_powi_less_cancel: "(2::real) powi a < 2 powi b \<Longrightarrow> a < b"
proof (rule ccontr)
  assume lt: "(2::real) powi a < 2 powi b" and "\<not> a < b"
  then have "b \<le> a" by simp
  then have "(2::real) powi b \<le> 2 powi a"
    by (intro power_int_increasing) simp_all
  then show False using lt by simp
qed

lemma two_powi_split: "e \<le> j \<Longrightarrow> (2::real) powi j = 2 ^ nat (j - e) * 2 powi e"
proof -
  assume "e \<le> j"
  then have "(2::real) powi j = 2 powi (int (nat (j - e)) + e)"
    by simp
  also have "\<dots> = 2 powi (int (nat (j - e))) * 2 powi e"
    by (rule power_int_add) simp
  finally show ?thesis
    by (simp only: power_int_of_nat)
qed

lemma rounding_positive:
  "0 < x \<Longrightarrow>
   round_binary p emin x =
     of_int (round_even (x / 2 powi ulp_exponent p emin x)) * 2 powi ulp_exponent p emin x"
  by (simp add: round_binary_def)

lemma round_binary_zero: "round_binary p emin 0 = 0"
  by (simp add: round_binary_def)

lemma round_binary_minus: "round_binary p emin (- x) = - round_binary p emin x"
  by (simp add: round_binary_def ulp_exponent_def sgn_minus)

lemma round_binary_nonneg: "0 \<le> x \<Longrightarrow> 0 \<le> round_binary p emin x"
proof -
  assume x: "0 \<le> x"
  have "0 \<le> x / 2 powi ulp_exponent p emin x"
    using x by simp
  then have "(of_int 0 :: real) \<le> x / 2 powi ulp_exponent p emin x"
    by simp
  then have "0 \<le> round_even (\<bar>x\<bar> / 2 powi ulp_exponent p emin x)"
    using x by (intro round_even_ge) simp
  then show ?thesis
    using x by (simp add: round_binary_def sgn_if)
qed

text \<open>A representable number at least as large as the binade of \<open>x\<close> lies on the grid of \<open>x\<close>.\<close>

lemma representable_on_grid:
  assumes x: "0 < x"
    and b: "(b::real) = of_int m * 2 powi j" and m: "\<bar>m\<bar> < 2 ^ p" and j: "emin - (int p - 1) \<le> j"
    and big: "\<lfloor>log 2 x\<rfloor> \<le> emin \<or> 2 powi \<lfloor>log 2 x\<rfloor> \<le> b"
  shows "\<exists>M. b = of_int M * 2 powi ulp_exponent p emin x"
proof -
  let ?E = "\<lfloor>log 2 x\<rfloor>"
  let ?e = "ulp_exponent p emin x"
  have e: "?e = max ?E emin - (int p - 1)"
    using x by (simp add: ulp_exponent_log)
  have le: "?e \<le> j"
  proof (cases "?E \<le> emin")
    case True
    then show ?thesis using e j by simp
  next
    case False
    then have lo: "2 powi ?E \<le> b"
      using big by simp
    have "m < 2 ^ p"
      using m by simp
    then have "(of_int m :: real) < of_int (2 ^ p)"
      by (simp only: of_int_less_iff)
    then have "(of_int m :: real) < 2 ^ p"
      by simp
    then have "of_int m * 2 powi j < 2 ^ p * (2::real) powi j"
      by (intro mult_strict_right_mono) simp_all
    also have "2 ^ p * (2::real) powi j = 2 powi (int p + j)"
      by (simp add: power_int_add)
    finally have "b < 2 powi (int p + j)"
      using b by simp
    then have "(2::real) powi ?E < 2 powi (int p + j)"
      using lo by linarith
    then have "?E < int p + j"
      by (rule two_powi_less_cancel)
    then show ?thesis
      using e False by simp
  qed
  have "b = of_int m * (2 ^ nat (j - ?e) * 2 powi ?e)"
    using b two_powi_split [OF le] by simp
  then have "b = of_int (m * 2 ^ nat (j - ?e)) * 2 powi ?e"
    by simp
  then show ?thesis ..
qed

lemma round_binary_le_positive:
  assumes x: "0 < x" and xb: "x \<le> b" and rep: "representable p emin b"
  shows "round_binary p emin x \<le> b"
proof -
  let ?e = "ulp_exponent p emin x"
  obtain m j where b: "b = of_int m * 2 powi j" and m: "\<bar>m\<bar> < 2 ^ p"
    and j: "emin - (int p - 1) \<le> j"
    using rep unfolding representable_def by blast
  have "2 powi \<lfloor>log 2 x\<rfloor> \<le> b"
    using two_powi_floor_log [OF x] xb by linarith
  then obtain M where M: "b = of_int M * 2 powi ?e"
    using representable_on_grid [OF x b m j] by blast
  have "x / 2 powi ?e \<le> b / 2 powi ?e"
    using xb by (intro divide_right_mono) simp_all
  then have "x / 2 powi ?e \<le> of_int M"
    by (simp add: M)
  then have "round_even (x / 2 powi ?e) \<le> M"
    by (rule round_even_le)
  then have "(of_int (round_even (x / 2 powi ?e)) :: real) \<le> of_int M"
    by (simp only: of_int_le_iff)
  then have "of_int (round_even (x / 2 powi ?e)) * 2 powi ?e \<le> of_int M * (2::real) powi ?e"
    by (intro mult_right_mono) simp_all
  then show ?thesis
    using M by (simp add: rounding_positive [OF x])
qed

lemma round_binary_ge_positive:
  assumes a: "0 < a" and ax: "a \<le> x" and rep: "representable p emin a" and p: "0 < p"
  shows "a \<le> round_binary p emin x"
proof -
  let ?E = "\<lfloor>log 2 x\<rfloor>"
  let ?e = "ulp_exponent p emin x"
  let ?n = "round_even (x / 2 powi ?e)"
  have x: "0 < x"
    using a ax by linarith
  have e: "?e = max ?E emin - (int p - 1)"
    using x by (simp add: ulp_exponent_log)
  obtain m j where b: "a = of_int m * 2 powi j" and m: "\<bar>m\<bar> < 2 ^ p"
    and j: "emin - (int p - 1) \<le> j"
    using rep unfolding representable_def by blast
  show ?thesis
  proof (cases "?E \<le> emin \<or> 2 powi ?E \<le> a")
    case True
    then obtain M where M: "a = of_int M * 2 powi ?e"
      using representable_on_grid [OF x b m j] by blast
    have "a / 2 powi ?e \<le> x / 2 powi ?e"
      using ax by (intro divide_right_mono) simp_all
    then have "of_int M \<le> x / 2 powi ?e"
      by (simp add: M)
    then have "M \<le> ?n"
      by (rule round_even_ge)
    then have "(of_int M :: real) \<le> of_int ?n"
      by (simp only: of_int_le_iff)
    then have "of_int M * (2::real) powi ?e \<le> of_int ?n * 2 powi ?e"
      by (intro mult_right_mono) simp_all
    then show ?thesis
      using M by (simp add: rounding_positive [OF x])
  next
    case False
    then have big: "emin < ?E" and small: "a < 2 powi ?E"
      by simp_all
    have e': "?e = ?E - (int p - 1)"
      using e big by simp
    have "?E = int (p - 1) + ?e"
      using e' p by simp
    then have "(2::real) powi ?E = 2 powi (int (p - 1) + ?e)"
      by simp
    also have "\<dots> = 2 powi (int (p - 1)) * 2 powi ?e"
      by (rule power_int_add) simp
    finally have split: "(2::real) powi ?E = 2 ^ (p - 1) * 2 powi ?e"
      by (simp only: power_int_of_nat)
    have "2 powi ?E \<le> x"
      using two_powi_floor_log [OF x] by simp
    then have "2 powi ?E / 2 powi ?e \<le> x / 2 powi ?e"
      by (intro divide_right_mono) simp_all
    then have "(2::real) ^ (p - 1) \<le> x / 2 powi ?e"
      by (simp add: split)
    then have "of_int (2 ^ (p - 1)) \<le> x / 2 powi ?e"
      by simp
    then have "2 ^ (p - 1) \<le> ?n"
      by (rule round_even_ge)
    then have "(of_int (2 ^ (p - 1)) :: real) \<le> of_int ?n"
      by (simp only: of_int_le_iff)
    then have "(2::real) ^ (p - 1) \<le> of_int ?n"
      by simp
    then have "2 ^ (p - 1) * (2::real) powi ?e \<le> of_int ?n * 2 powi ?e"
      by (intro mult_right_mono) simp_all
    then have "2 powi ?E \<le> round_binary p emin x"
      by (simp add: split rounding_positive [OF x])
    then show ?thesis
      using small by linarith
  qed
qed

lemma representable_minus: "representable p emin (- x) = representable p emin x"
proof -
  have "representable p emin (- y)" if r: "representable p emin y" for y
  proof -
    obtain m j where "y = of_int m * 2 powi j" "\<bar>m\<bar> < 2 ^ p" "emin - (int p - 1) \<le> j"
      using r unfolding representable_def by blast
    then have "- y = of_int (- m) * 2 powi j \<and> \<bar>- m\<bar> < 2 ^ p \<and> emin - (int p - 1) \<le> j"
      by simp
    then show ?thesis
      unfolding representable_def by blast
  qed
  from this [of x] this [of "- x"] show ?thesis
    by auto
qed

text \<open>Rounding does not cross a representable number.\<close>

lemma round_binary_le:
  assumes xb: "x \<le> b" and rep: "representable p emin b" and p: "0 < p"
  shows "round_binary p emin x \<le> b"
proof -
  consider "0 < x" | "x \<le> 0" "0 \<le> b" | "x < 0" "b < 0"
    using xb by linarith
  then show ?thesis
  proof cases
    case 1
    then show ?thesis using xb rep by (rule round_binary_le_positive)
  next
    case 2
    have "0 \<le> round_binary p emin (- x)"
      using 2(1) by (intro round_binary_nonneg) simp
    then show ?thesis
      using 2(2) by (simp add: round_binary_minus)
  next
    case 3
    have "- b \<le> round_binary p emin (- x)"
      using 3 xb rep p by (intro round_binary_ge_positive) (simp_all add: representable_minus)
    then show ?thesis
      by (simp add: round_binary_minus)
  qed
qed

lemma round_binary_ge:
  assumes ax: "a \<le> x" and rep: "representable p emin a" and p: "0 < p"
  shows "a \<le> round_binary p emin x"
proof -
  have "- x \<le> - a"
    using ax by simp
  then have "round_binary p emin (- x) \<le> - a"
    using rep p by (intro round_binary_le) (simp_all add: representable_minus)
  then show ?thesis
    by (simp add: round_binary_minus)
qed

lemma round_binary_representable:
  assumes rep: "representable p emin x" and p: "0 < p"
  shows "round_binary p emin x = x"
proof -
  have "x \<le> round_binary p emin x"
    using rep p by (intro round_binary_ge) simp_all
  moreover have "round_binary p emin x \<le> x"
    using rep p by (intro round_binary_le) simp_all
  ultimately show ?thesis by simp
qed

lemma ulp_exponent_eq:
  assumes "2 powi E \<le> \<bar>x\<bar>" and "\<bar>x\<bar> < 2 powi (E + 1)" and "emin \<le> E"
  shows "ulp_exponent p emin x = E - (int p - 1)"
proof -
  have "(0::real) < 2 powi E"
    by simp
  then have "0 < \<bar>x\<bar>"
    using assms(1) by linarith
  then have "x \<noteq> 0"
    by simp
  then show ?thesis
    using floor_log_two_eq [OF assms(1,2)] assms(3) by (simp add: ulp_exponent_log)
qed

lemma round_binary_error:
  assumes normal: "2 powi emin \<le> \<bar>x\<bar>" and p: "0 < p"
  shows "\<bar>round_binary p emin x - x\<bar> \<le> \<bar>x\<bar> * 2 powi (- int p)"
proof -
  let ?E = "\<lfloor>log 2 \<bar>x\<bar>\<rfloor>"
  let ?e = "ulp_exponent p emin x"
  let ?q = "\<bar>x\<bar> / 2 powi ?e"
  have "(0::real) < 2 powi emin"
    by simp
  then have pos: "0 < \<bar>x\<bar>"
    using normal by linarith
  have E: "2 powi ?E \<le> \<bar>x\<bar>" "\<bar>x\<bar> < 2 powi (?E + 1)"
    using two_powi_floor_log [OF pos] by simp_all
  have "(2::real) powi emin < 2 powi (?E + 1)"
    using normal E(2) by linarith
  then have "emin < ?E + 1"
    by (rule two_powi_less_cancel)
  then have e: "?e = ?E - (int p - 1)"
    using pos by (simp add: ulp_exponent_log)
  have "?e + int p = ?E + 1"
    using e by simp
  then have "(2::real) powi (?E + 1) = 2 powi (?e + int p)"
    by simp
  also have "\<dots> = 2 powi ?e * 2 powi (int p)"
    by (rule power_int_add) simp
  finally have split: "(2::real) powi (?E + 1) = 2 powi ?e * 2 ^ p"
    by (simp only: power_int_of_nat)
  have "(2::real) powi (?E + 1) = 2 powi ?E * 2"
    by (simp add: power_int_add)
  then have half: "2 powi ?e * 2 ^ p = 2 powi ?E * (2::real)"
    using split by simp
  have "2 powi ?e * 2 ^ p \<le> \<bar>x\<bar> * 2"
    using E(1) half by simp
  then have "2 powi ?e * 2 ^ p / (2 * 2 ^ p) \<le> \<bar>x\<bar> * 2 / (2 * 2 ^ p)"
    by (intro divide_right_mono) simp_all
  then have ulp: "2 powi ?e / 2 \<le> \<bar>x\<bar> * 2 powi (- int p)"
    by (simp add: power_int_minus_divide)
  have sg: "\<bar>x\<bar> = sgn x * x" "x = sgn x * \<bar>x\<bar>"
    by (simp_all add: sgn_if)
  have q: "?q * 2 powi ?e = \<bar>x\<bar>"
    by simp
  have "round_binary p emin x - x = sgn x * (of_int (round_even ?q) * 2 powi ?e - \<bar>x\<bar>)"
    using sg(2) by (simp add: round_binary_def algebra_simps)
  also have "of_int (round_even ?q) * 2 powi ?e - \<bar>x\<bar> = (of_int (round_even ?q) - ?q) * 2 powi ?e"
    using q by (simp add: algebra_simps)
  finally have "\<bar>round_binary p emin x - x\<bar> = \<bar>of_int (round_even ?q) - ?q\<bar> * 2 powi ?e"
    using pos by (simp add: abs_mult sgn_if)
  also have "\<dots> \<le> 1 / 2 * 2 powi ?e"
    by (intro mult_right_mono round_even_error) simp
  finally show ?thesis
    using ulp by simp
qed

lemma fl64_minus: "fl64 (- x) = - fl64 x"
  by (simp add: fl64_def round_binary_minus)

lemma fl64_nonneg: "0 \<le> x \<Longrightarrow> 0 \<le> fl64 x"
  by (simp add: fl64_def round_binary_nonneg)

lemma fl64_zero: "fl64 0 = 0"
  by (simp add: fl64_def round_binary_zero)

lemma fl64_error: "2 powi (- 1022) \<le> \<bar>x\<bar> \<Longrightarrow> \<bar>fl64 x - x\<bar> \<le> \<bar>x\<bar> / 2 ^ 53"
  using round_binary_error [of "- 1022" x 53] by (simp add: fl64_def power_int_minus_divide)

lemma repeated_add_minus: "repeated_add (- r) n = - repeated_add r n"
proof (induction n)
  case 0
  show ?case by simp
next
  case (Suc n)
  have "repeated_add (- r) n + - r = - (repeated_add r n + r)"
    by (simp add: Suc.IH)
  then show ?case
    by (simp only: repeated_add.simps fl64_minus)
qed

lemma repeated_add_zero: "repeated_add 0 n = 0"
  by (induction n) (simp_all add: fl64_zero)

lemma repeated_add_nonneg: "0 \<le> r \<Longrightarrow> 0 \<le> repeated_add r n"
  by (induction n) (simp_all add: fl64_nonneg)

lemma repeated_add_drift_positive:
  assumes r: "2 powi (- 1022) \<le> r" and n: "n \<le> 2 ^ 53"
  shows "\<bar>repeated_add r n - real n * r\<bar> \<le> (real n)\<^sup>2 * (r / 2 ^ 53)"
  using n
proof (induction n)
  case 0
  show ?case by simp
next
  case (Suc n)
  let ?a = "repeated_add r n"
  let ?d = "r / 2 ^ 53"
  let ?x = "?a + r"
  have "(0::real) < 2 powi (- 1022)"
    by simp
  then have rpos: "0 < r"
    using r by linarith
  then have d: "0 \<le> ?d"
    by simp
  have nle: "real n \<le> 2 ^ 53"
    using Suc.prems by (simp add: of_nat_le_iff [symmetric] del: of_nat_le_iff)
  have IH: "\<bar>?a - real n * r\<bar> \<le> (real n)\<^sup>2 * ?d"
    using Suc.prems by (intro Suc.IH) simp
  have a0: "0 \<le> ?a"
    using rpos by (intro repeated_add_nonneg) simp
  have "2 powi (- 1022) \<le> \<bar>?x\<bar>"
    using a0 r by simp
  then have "\<bar>fl64 ?x - ?x\<bar> \<le> \<bar>?x\<bar> / 2 ^ 53"
    by (rule fl64_error)
  then have err: "\<bar>fl64 ?x - ?x\<bar> \<le> ?x / 2 ^ 53"
    using a0 rpos by simp
  have sn: "real (Suc n) * r = real n * r + r"
    by (simp add: algebra_simps)
  have "?x \<le> real (Suc n) * r + (real n)\<^sup>2 * ?d"
    using IH sn by linarith
  then have "?x / 2 ^ 53 \<le> (real (Suc n) * r + (real n)\<^sup>2 * ?d) / 2 ^ 53"
    by (intro divide_right_mono) simp_all
  also have "\<dots> = real (Suc n) * ?d + ((real n)\<^sup>2 / 2 ^ 53) * ?d"
    by (simp add: add_divide_distrib)
  finally have x: "?x / 2 ^ 53 \<le> real (Suc n) * ?d + ((real n)\<^sup>2 / 2 ^ 53) * ?d" .
  have "real n * real n \<le> real n * 2 ^ 53"
    using nle by (intro mult_left_mono) simp_all
  then have "(real n)\<^sup>2 / 2 ^ 53 \<le> real n"
    by (simp add: power2_eq_square field_simps)
  then have sq: "((real n)\<^sup>2 / 2 ^ 53) * ?d \<le> real n * ?d"
    using d by (intro mult_right_mono) simp_all
  have "fl64 ?x - real (Suc n) * r = (fl64 ?x - ?x) + (?a - real n * r)"
    by (simp add: algebra_simps)
  then have "\<bar>fl64 ?x - real (Suc n) * r\<bar> \<le> \<bar>fl64 ?x - ?x\<bar> + \<bar>?a - real n * r\<bar>"
    by (simp only: abs_triangle_ineq)
  also have "\<dots> \<le> (real (Suc n) * ?d + real n * ?d) + (real n)\<^sup>2 * ?d"
    using err x sq IH by linarith
  also have "\<dots> = (real (Suc n))\<^sup>2 * ?d"
    by (simp add: power2_eq_square algebra_simps)
  finally show ?case
    by simp
qed

lemma repeated_add_step_positive:
  assumes r: "2 powi (- 1022) \<le> r" and n: "n < 2 ^ 52"
  shows "repeated_add r n < repeated_add r (Suc n)"
proof -
  let ?a = "repeated_add r n"
  let ?d = "r / 2 ^ 53"
  let ?x = "?a + r"
  have "(0::real) < 2 powi (- 1022)"
    by simp
  then have rpos: "0 < r"
    using r by linarith
  have a0: "0 \<le> ?a"
    using rpos by (intro repeated_add_nonneg) simp
  have "Suc n \<le> 2 ^ 52"
    using n by simp
  then have "real (Suc n) \<le> 2 ^ 52"
    by (simp add: of_nat_le_iff [symmetric] del: of_nat_le_iff of_nat_Suc)
  then have nle: "real n \<le> 2 ^ 52 - 1"
    by simp
  have "n \<le> 2 ^ 53"
    using n by simp
  then have "\<bar>?a - real n * r\<bar> \<le> (real n)\<^sup>2 * ?d"
    using r by (intro repeated_add_drift_positive)
  then have a1: "?a \<le> real n * r + (real n)\<^sup>2 * ?d"
    by linarith
  have "real n * real n \<le> real n * (2 ^ 52 - 1)"
    using nle by (intro mult_left_mono) simp_all
  then have "(real n)\<^sup>2 / 2 ^ 53 \<le> real n / 2"
    by (simp add: power2_eq_square field_simps)
  then have "((real n)\<^sup>2 / 2 ^ 53) * r \<le> (real n / 2) * r"
    using rpos by (intro mult_right_mono) simp_all
  then have "(real n)\<^sup>2 * ?d \<le> real n * r / 2"
    by simp
  then have "?a \<le> real n * r * (3 / 2)"
    using a1 by linarith
  also have "real n * r * (3 / 2) \<le> (2 ^ 52 - 1) * r * (3 / 2)"
    using nle rpos by (intro mult_right_mono) simp_all
  finally have a2: "?a \<le> (2 ^ 52 - 1) * r * (3 / 2)" .
  have "(2 ^ 52 - 1) * (3 / 2) < (2 ^ 53 - 1 :: real)"
    by simp
  then have "(2 ^ 52 - 1) * (3 / 2) * r < (2 ^ 53 - 1) * r"
    using rpos by (intro mult_strict_right_mono)
  then have a3: "?a < (2 ^ 53 - 1) * r"
    using a2 by (simp add: algebra_simps)
  have "2 powi (- 1022) \<le> \<bar>?x\<bar>"
    using a0 r by simp
  then have "\<bar>fl64 ?x - ?x\<bar> \<le> \<bar>?x\<bar> / 2 ^ 53"
    by (rule fl64_error)
  moreover have "\<bar>?x\<bar> = ?x"
    using a0 rpos by simp
  ultimately have "?x - ?x / 2 ^ 53 \<le> fl64 ?x"
    by linarith
  moreover have "?a < ?x - ?x / 2 ^ 53"
    using a3 by (simp add: field_simps)
  ultimately show ?thesis
    by (simp only: repeated_add.simps)
qed

lemma repeated_add_increasing_positive:
  assumes r: "2 powi (- 1022) \<le> r"
  shows "m \<le> 2 ^ 52 \<Longrightarrow> n < m \<Longrightarrow> repeated_add r n < repeated_add r m"
proof (induction m)
  case 0
  then show ?case by simp
next
  case (Suc m)
  have step: "repeated_add r m < repeated_add r (Suc m)"
    using r Suc.prems(1) by (intro repeated_add_step_positive) simp_all
  show ?case
  proof (cases "n = m")
    case True
    then show ?thesis using step by simp
  next
    case False
    then have "n < m" using Suc.prems(2) by simp
    then have "repeated_add r n < repeated_add r m"
      using Suc.prems(1) by (intro Suc.IH) simp_all
    then show ?thesis using step by linarith
  qed
qed

lemma repeated_add_distinct:
  assumes r: "2 powi (- 1022) \<le> \<bar>r\<bar>" and n: "n \<le> 2 ^ 52" and m: "m \<le> 2 ^ 52" and ne: "n \<noteq> m"
  shows "repeated_add r n \<noteq> repeated_add r m"
proof -
  have pos: "repeated_add s n \<noteq> repeated_add s m" if s: "2 powi (- 1022) \<le> s" for s
  proof (cases "n < m")
    case True
    then have "repeated_add s n < repeated_add s m"
      by (rule repeated_add_increasing_positive [OF s m])
    then show ?thesis by simp
  next
    case False
    then have "m < n" using ne by simp
    then have "repeated_add s m < repeated_add s n"
      by (rule repeated_add_increasing_positive [OF s n])
    then show ?thesis by simp
  qed
  show ?thesis
  proof (cases "0 \<le> r")
    case True
    then show ?thesis using pos [of r] r by simp
  next
    case False
    then have "2 powi (- 1022) \<le> - r" using r by simp
    then have "repeated_add (- r) n \<noteq> repeated_add (- r) m"
      by (rule pos)
    then show ?thesis
      by (simp add: repeated_add_minus)
  qed
qed

lemma repeated_add_drift:
  assumes r: "2 powi (- 1022) \<le> \<bar>r\<bar>" and n: "n \<le> 2 ^ 53"
  shows "\<bar>repeated_add r n - real n * r\<bar> \<le> (real n)\<^sup>2 * (\<bar>r\<bar> / 2 ^ 53)"
proof (cases "0 \<le> r")
  case True
  then show ?thesis
    using repeated_add_drift_positive [of r n] r n by simp
next
  case False
  then have "2 powi (- 1022) \<le> - r" using r by simp
  then have "\<bar>repeated_add (- r) n - real n * (- r)\<bar> \<le> (real n)\<^sup>2 * (- r / 2 ^ 53)"
    using n by (rule repeated_add_drift_positive)
  moreover have "repeated_add (- r) n - real n * (- r) = - (repeated_add r n - real n * r)"
    by (simp add: repeated_add_minus)
  ultimately show ?thesis
    using False by (simp only: abs_minus)
qed

lemma round_binary_nearest:
  assumes "2 powi E \<le> x" and "x < 2 powi (E + 1)" and "emin \<le> E"
    and "of_int n - 1 / 2 < x / 2 powi (E - (int p - 1))"
    and "x / 2 powi (E - (int p - 1)) < of_int n + 1 / 2"
  shows "round_binary p emin x = of_int n * 2 powi (E - (int p - 1))"
proof -
  have "(0::real) < 2 powi E"
    by simp
  then have x: "0 < x"
    using assms(1) by linarith
  then have "\<bar>x\<bar> = x"
    by simp
  then have e: "ulp_exponent p emin x = E - (int p - 1)"
    using assms(1,2,3) by (intro ulp_exponent_eq) simp_all
  show ?thesis
    using round_even_nearest [OF assms(4,5)] by (simp add: rounding_positive [OF x] e)
qed

lemma round_binary_tie_odd:
  assumes "2 powi E \<le> x" and "x < 2 powi (E + 1)" and "emin \<le> E"
    and "x / 2 powi (E - (int p - 1)) = of_int f + 1 / 2" and "odd f"
  shows "round_binary p emin x = of_int (f + 1) * 2 powi (E - (int p - 1))"
proof -
  have "(0::real) < 2 powi E"
    by simp
  then have x: "0 < x"
    using assms(1) by linarith
  then have "\<bar>x\<bar> = x"
    by simp
  then have e: "ulp_exponent p emin x = E - (int p - 1)"
    using assms(1,2,3) by (intro ulp_exponent_eq) simp_all
  show ?thesis
    using round_even_tie_odd [OF assms(5)] by (simp add: rounding_positive [OF x] e assms(4))
qed

lemma fl64_exact:
  assumes "x = of_int m * 2 powi j" and "\<bar>m\<bar> < 2 ^ 53" and "- 1074 \<le> j"
  shows "fl64 x = x"
proof -
  have "representable 53 (- 1022) x"
    unfolding representable_def using assms by (intro exI [of _ m] exI [of _ j]) simp
  then show ?thesis
    by (simp add: fl64_def round_binary_representable)
qed

lemma fl64_le: "x \<le> of_int m * 2 powi j \<Longrightarrow> \<bar>m\<bar> < 2 ^ 53 \<Longrightarrow> - 1074 \<le> j \<Longrightarrow> fl64 x \<le> of_int m * 2 powi j"
proof -
  assume a: "x \<le> of_int m * 2 powi j" "\<bar>m\<bar> < 2 ^ 53" "- 1074 \<le> j"
  have "representable 53 (- 1022) (of_int m * 2 powi j)"
    unfolding representable_def using a(2,3) by (intro exI [of _ m] exI [of _ j]) simp
  then show ?thesis
    using a(1) by (simp add: fl64_def round_binary_le)
qed

lemma fl64_ge: "of_int m * 2 powi j \<le> x \<Longrightarrow> \<bar>m\<bar> < 2 ^ 53 \<Longrightarrow> - 1074 \<le> j \<Longrightarrow> of_int m * 2 powi j \<le> fl64 x"
proof -
  assume a: "of_int m * 2 powi j \<le> x" "\<bar>m\<bar> < 2 ^ 53" "- 1074 \<le> j"
  have "representable 53 (- 1022) (of_int m * 2 powi j)"
    unfolding representable_def using a(2,3) by (intro exI [of _ m] exI [of _ j]) simp
  then show ?thesis
    using a(1) by (simp add: fl64_def round_binary_ge)
qed

lemma fl32_le: "x \<le> of_int m * 2 powi j \<Longrightarrow> \<bar>m\<bar> < 2 ^ 24 \<Longrightarrow> - 149 \<le> j \<Longrightarrow> fl32 x \<le> of_int m * 2 powi j"
proof -
  assume a: "x \<le> of_int m * 2 powi j" "\<bar>m\<bar> < 2 ^ 24" "- 149 \<le> j"
  have "representable 24 (- 126) (of_int m * 2 powi j)"
    unfolding representable_def using a(2,3) by (intro exI [of _ m] exI [of _ j]) simp
  then show ?thesis
    using a(1) by (simp add: fl32_def round_binary_le)
qed

lemma fl32_ge: "of_int m * 2 powi j \<le> x \<Longrightarrow> \<bar>m\<bar> < 2 ^ 24 \<Longrightarrow> - 149 \<le> j \<Longrightarrow> of_int m * 2 powi j \<le> fl32 x"
proof -
  assume a: "of_int m * 2 powi j \<le> x" "\<bar>m\<bar> < 2 ^ 24" "- 149 \<le> j"
  have "representable 24 (- 126) (of_int m * 2 powi j)"
    unfolding representable_def using a(2,3) by (intro exI [of _ m] exI [of _ j]) simp
  then show ?thesis
    using a(1) by (simp add: fl32_def round_binary_ge)
qed

lemma fl64_small_int: "\<bar>m\<bar> < 2 ^ 53 \<Longrightarrow> fl64 (of_int m) = of_int m"
  using fl64_exact [of "of_int m" m 0] by simp

text \<open>Bounds used by the construction.\<close>

lemma fl64_between_ints:
  assumes "of_int a \<le> x" and "x \<le> of_int b" and "\<bar>a\<bar> < 2 ^ 53" and "\<bar>b\<bar> < 2 ^ 53"
  shows "of_int a \<le> fl64 x \<and> fl64 x \<le> of_int b"
  using fl64_ge [of a 0 x] fl64_le [of x b 0] assms by simp

lemma fl32_between_ints:
  assumes "of_int a \<le> x" and "x \<le> of_int b" and "\<bar>a\<bar> < 2 ^ 24" and "\<bar>b\<bar> < 2 ^ 24"
  shows "of_int a \<le> fl32 x \<and> fl32 x \<le> of_int b"
  using fl32_ge [of a 0 x] fl32_le [of x b 0] assms by simp

lemma fl64_between_halves:
  assumes "- (1 / 2) \<le> x" and "x \<le> 1 / 2"
  shows "- (1 / 2) \<le> fl64 x \<and> fl64 x \<le> 1 / 2"
  using fl64_ge [of "- 1" "- 1" x] fl64_le [of x 1 "- 1"] assms by simp

text \<open>Values at the upper ends.\<close>

lemma fl64_five_minus: "fl64 ((1 - 1 / 2 ^ 52) * 5) = 5 - 1 / 2 ^ 50"
proof -
  have "round_binary 53 (- 1022) ((1 - 1 / 2 ^ 52) * 5) =
      of_int (5 * 2 ^ 50 - 1) * 2 powi (2 - (int 53 - 1))"
    by (rule round_binary_nearest) simp_all
  then show ?thesis
    by (simp add: fl64_def)
qed

lemma fl64_twenty_minus: "fl64 (15 + (5 - 1 / 2 ^ 50)) = 20"
proof -
  have "round_binary 53 (- 1022) (15 + (5 - 1 / 2 ^ 50)) =
      of_int (20 * 2 ^ 48) * 2 powi (4 - (int 53 - 1))"
    by (rule round_binary_nearest) simp_all
  then show ?thesis
    by (simp add: fl64_def)
qed

lemma fl64_half_minus: "fl64 ((1 - 1 / 2 ^ 53) * 0.5) = 1 / 2 - 1 / 2 ^ 54"
  using fl64_exact [of "(1 - 1 / 2 ^ 53) * 0.5" "2 ^ 53 - 1" "- 54"] by simp

lemma fl64_one_minus: "fl64 (0.5 + (1 / 2 - 1 / 2 ^ 54)) = 1"
proof -
  have "round_binary 53 (- 1022) (0.5 + (1 / 2 - 1 / 2 ^ 54)) =
      of_int ((2 ^ 53 - 1) + 1) * 2 powi (- 1 - (int 53 - 1))"
    by (rule round_binary_tie_odd) simp_all
  then show ?thesis
    by (simp add: fl64_def)
qed

lemma fl64_near_half: "fl64 (1 - 1 / 2 ^ 26 - 0.5) = 1 / 2 - 1 / 2 ^ 26"
  using fl64_exact [of "1 - 1 / 2 ^ 26 - 0.5" "2 ^ 25 - 1" "- 26"] by simp

lemma fl64_near_fifty: "fl64 ((1 / 2 - 1 / 2 ^ 26) * 100) = 50 - 25 / 2 ^ 24"
  using fl64_exact [of "(1 / 2 - 1 / 2 ^ 26) * 100" "50 * 2 ^ 24 - 25" "- 24"] by simp

lemma fl32_fifty: "fl32 (50 - 25 / 2 ^ 24) = 50"
proof -
  have "round_binary 24 (- 126) (50 - 25 / 2 ^ 24) =
      of_int (50 * 2 ^ 18) * 2 powi (5 - (int 24 - 1))"
    by (rule round_binary_nearest) simp_all
  then show ?thesis
    by (simp add: fl32_def)
qed

lemma round_even_tie_even: "even f \<Longrightarrow> round_even (of_int f + 1 / 2) = f"
proof -
  assume o: "even f"
  have "\<lfloor>of_int f + (1 / 2 :: real)\<rfloor> = f"
    by linarith
  then show ?thesis
    using o by (simp add: round_even_def Let_def)
qed

lemma round_binary_tie_even:
  assumes "2 powi E \<le> x" and "x < 2 powi (E + 1)" and "emin \<le> E"
    and "x / 2 powi (E - (int p - 1)) = of_int f + 1 / 2" and "even f"
  shows "round_binary p emin x = of_int f * 2 powi (E - (int p - 1))"
proof -
  have "(0::real) < 2 powi E"
    by simp
  then have x: "0 < x"
    using assms(1) by linarith
  then have "\<bar>x\<bar> = x"
    by simp
  then have e: "ulp_exponent p emin x = E - (int p - 1)"
    using assms(1,2,3) by (intro ulp_exponent_eq) simp_all
  show ?thesis
    using round_even_tie_even [OF assms(5)] by (simp add: rounding_positive [OF x] e assms(4))
qed

text \<open>
  Six additions of the double nearest to 0.01 leave 0.060000000000000005, and the
  product of that double with 6 is the double 0.06, one unit in the last place below.
\<close>

lemma fl64_hundredth: "fl64 (1 / 100) = 5764607523034235 / 2 ^ 59"
proof -
  have "round_binary 53 (- 1022) (1 / 100) =
      of_int 5764607523034235 * 2 powi (- 7 - (int 53 - 1))"
    by (rule round_binary_nearest) simp_all
  then show ?thesis
    by (simp add: fl64_def)
qed

lemma six_additions:
  "repeated_add (5764607523034235 / 2 ^ 59) 6 = 8646911284551353 / 2 ^ 57"
proof -
  have s1: "fl64 (0 + 5764607523034235 / 2 ^ 59) = 5764607523034235 / 2 ^ 59"
    using fl64_exact [of "0 + 5764607523034235 / 2 ^ 59" 5764607523034235 "- 59"] by simp
  have s2: "fl64 (5764607523034235 / 2 ^ 59 + 5764607523034235 / 2 ^ 59) =
      5764607523034235 / 2 ^ 58"
    using fl64_exact [of "5764607523034235 / 2 ^ 59 + 5764607523034235 / 2 ^ 59"
        5764607523034235 "- 58"] by simp
  have "round_binary 53 (- 1022) (5764607523034235 / 2 ^ 58 + 5764607523034235 / 2 ^ 59) =
      of_int 8646911284551352 * 2 powi (- 6 - (int 53 - 1))"
    by (rule round_binary_tie_even) simp_all
  then have s3: "fl64 (5764607523034235 / 2 ^ 58 + 5764607523034235 / 2 ^ 59) =
      8646911284551352 / 2 ^ 58"
    by (simp add: fl64_def)
  have "round_binary 53 (- 1022) (8646911284551352 / 2 ^ 58 + 5764607523034235 / 2 ^ 59) =
      of_int 5764607523034235 * 2 powi (- 5 - (int 53 - 1))"
    by (rule round_binary_nearest) simp_all
  then have s4: "fl64 (8646911284551352 / 2 ^ 58 + 5764607523034235 / 2 ^ 59) =
      5764607523034235 / 2 ^ 57"
    by (simp add: fl64_def)
  have "round_binary 53 (- 1022) (5764607523034235 / 2 ^ 57 + 5764607523034235 / 2 ^ 59) =
      of_int 7205759403792794 * 2 powi (- 5 - (int 53 - 1))"
    by (rule round_binary_nearest) simp_all
  then have s5: "fl64 (5764607523034235 / 2 ^ 57 + 5764607523034235 / 2 ^ 59) =
      7205759403792794 / 2 ^ 57"
    by (simp add: fl64_def)
  have "round_binary 53 (- 1022) (7205759403792794 / 2 ^ 57 + 5764607523034235 / 2 ^ 59) =
      of_int 8646911284551353 * 2 powi (- 5 - (int 53 - 1))"
    by (rule round_binary_nearest) simp_all
  then have s6: "fl64 (7205759403792794 / 2 ^ 57 + 5764607523034235 / 2 ^ 59) =
      8646911284551353 / 2 ^ 57"
    by (simp add: fl64_def)
  have "repeated_add (5764607523034235 / 2 ^ 59) (Suc (Suc (Suc (Suc (Suc (Suc 0)))))) =
      8646911284551353 / 2 ^ 57"
    by (simp only: repeated_add.simps s1 s2 s3 s4 s5 s6)
  moreover have "(6::nat) = Suc (Suc (Suc (Suc (Suc (Suc 0)))))"
    by simp
  ultimately show ?thesis
    by (simp only:)
qed

lemma six_times: "fl64 (6 * (5764607523034235 / 2 ^ 59)) = 8646911284551352 / 2 ^ 57"
proof -
  have "round_binary 53 (- 1022) (6 * (5764607523034235 / 2 ^ 59)) =
      of_int 8646911284551352 * 2 powi (- 5 - (int 53 - 1))"
    by (rule round_binary_tie_even) simp_all
  then show ?thesis
    by (simp add: fl64_def)
qed

lemma six_additions_exceed_product:
  "repeated_add (fl64 (- (1 / 100))) 6 = - (8646911284551353 / 2 ^ 57) \<and>
   fl64 (6 * fl64 (- (1 / 100))) = - (8646911284551352 / 2 ^ 57) \<and>
   repeated_add (fl64 (- (1 / 100))) 6 \<noteq> fl64 (6 * fl64 (- (1 / 100)))"
proof -
  have r: "fl64 (- (1 / 100)) = - (5764607523034235 / 2 ^ 59)"
    by (simp only: fl64_minus fl64_hundredth)
  have a: "repeated_add (fl64 (- (1 / 100))) 6 = - (8646911284551353 / 2 ^ 57)"
    by (simp only: r repeated_add_minus six_additions)
  have m: "6 * - (5764607523034235 / 2 ^ 59 :: real) = - (6 * (5764607523034235 / 2 ^ 59))"
    by simp
  have "fl64 (6 * fl64 (- (1 / 100))) = fl64 (- (6 * (5764607523034235 / 2 ^ 59)))"
    by (simp only: r m)
  then have b: "fl64 (6 * fl64 (- (1 / 100))) = - (8646911284551352 / 2 ^ 57)"
    by (simp only: fl64_minus six_times)
  show ?thesis
    by (simp add: a b)
qed

section \<open>Basic facts about the operations\<close>

lemma shapes_build_scene: "shapes (build_scene win rnd) = map (create_shape rnd) [0..<5]"
  by (simp add: build_scene_def)

lemma length_shapes_build_scene: "length (shapes (build_scene win rnd)) = 5"
  by (simp add: shapes_build_scene)

lemma nth_shapes_build_scene:
  "i < 5 \<Longrightarrow> shapes (build_scene win rnd) ! i = create_shape rnd i"
  by (simp add: shapes_build_scene del: upt_Suc)

lemma shapes_tick: "shapes (tick t sc) = map (animate_shape t) (shapes sc)"
  by (simp add: tick_def)

lemma shapes_onResize: "shapes (onResize w h sc) = shapes sc"
  by (simp add: onResize_def)

lemma length_shapes_handle: "length (shapes (handle e sc)) = length (shapes sc)"
  by (cases e) (simp_all add: shapes_tick shapes_onResize)

lemma length_shapes_run: "length (shapes (run es sc)) = length (shapes sc)"
  by (induction es arbitrary: sc) (simp_all add: length_shapes_handle)

lemma run_append: "run (es @ es') sc = run es' (run es sc)"
  by (induction es arbitrary: sc) simp_all

lemma userData_animate_shape: "userData (animate_shape t s) = userData s"
  by (simp add: animate_shape_def Let_def)

lemma geom_animate_shape: "geom (animate_shape t s) = geom s"
  by (simp add: animate_shape_def Let_def)

lemma position_xz_animate_shape:
  "vec_x (position (animate_shape t s)) = vec_x (position s) \<and>
   vec_z (position (animate_shape t s)) = vec_z (position s)"
  by (simp add: animate_shape_def Let_def)

lemma position_y_animate_shape:
  "vec_y (position (animate_shape t s)) =
     initialY (userData s) + sin (t * speed (userData s) + offset (userData s)) * 1.5"
  by (simp add: animate_shape_def Let_def)

lemma rotation_animate_shape:
  "vec_x (rotation (animate_shape t s)) = fl64 (vec_x (rotation s) + rotSpeed (userData s)) \<and>
   vec_y (rotation (animate_shape t s)) = fl64 (vec_y (rotation s) + rotSpeed (userData s)) \<and>
   vec_z (rotation (animate_shape t s)) = vec_z (rotation s)"
  by (simp add: animate_shape_def Let_def)

lemma nth_shapes_handle:
  "i < length (shapes sc) \<Longrightarrow>
   shapes (handle e sc) ! i =
     (case e of Frame t \<Rightarrow> animate_shape t (shapes sc ! i) | Resize w h \<Rightarrow> shapes sc ! i)"
  by (cases e) (simp_all add: shapes_tick shapes_onResize)

lemma frozen_part_animate_shape: "frozen_part (animate_shape t s) = frozen_part s"
  by (simp add: frozen_part_def animate_shape_def Let_def)

lemma frozen_part_handle:
  "i < length (shapes sc) \<Longrightarrow> frozen_part (shapes (handle e sc) ! i) = frozen_part (shapes sc ! i)"
  by (cases e) (simp_all add: shapes_tick shapes_onResize frozen_part_animate_shape)

lemma frozen_part_run:
  "i < length (shapes sc) \<Longrightarrow> frozen_part (shapes (run es sc) ! i) = frozen_part (shapes sc ! i)"
proof (induction es arbitrary: sc)
  case Nil
  then show ?case by simp
next
  case (Cons e es)
  have "i < length (shapes (handle e sc))"
    using Cons.prems by (simp add: length_shapes_handle)
  then have "frozen_part (shapes (run es (handle e sc)) ! i) = frozen_part (shapes (handle e sc) ! i)"
    by (rule Cons.IH)
  then show ?case
    using Cons.prems by (simp add: frozen_part_handle)
qed

lemma userData_run:
  "i < length (shapes sc) \<Longrightarrow> userData (shapes (run es sc) ! i) = userData (shapes sc ! i)"
  using frozen_part_run [of i sc es] by (simp add: frozen_part_def)

lemma run_ticks_snoc: "run_ticks (ts @ [t]) sc = tick t (run_ticks ts sc)"
  by (simp add: run_ticks_def run_append)

lemma rotation_run_ticks:
  assumes i: "i < length (shapes sc)"
    and x0: "vec_x (rotation (shapes sc ! i)) = 0" and y0: "vec_y (rotation (shapes sc ! i)) = 0"
  shows "vec_x (rotation (shapes (run_ticks ts sc) ! i)) =
           repeated_add (rotSpeed (userData (shapes sc ! i))) (length ts) \<and>
         vec_y (rotation (shapes (run_ticks ts sc) ! i)) =
           repeated_add (rotSpeed (userData (shapes sc ! i))) (length ts)"
proof (induction ts rule: rev_induct)
  case Nil
  show ?case
    using x0 y0 by (simp add: run_ticks_def)
next
  case (snoc t ts)
  have len: "i < length (shapes (run_ticks ts sc))"
    using i by (simp add: run_ticks_def length_shapes_run)
  have step: "shapes (run_ticks (ts @ [t]) sc) ! i = animate_shape t (shapes (run_ticks ts sc) ! i)"
    using len by (simp add: run_ticks_snoc shapes_tick)
  have d: "userData (shapes (run_ticks ts sc) ! i) = userData (shapes sc ! i)"
    using i by (simp add: run_ticks_def userData_run)
  show ?case
    using snoc.IH by (simp add: step rotation_animate_shape d)
qed

lemma position_y_last_frame:
  "i < length (shapes sc) \<Longrightarrow>
   vec_y (position (shapes (run (es @ [Frame t]) sc) ! i)) =
     initialY (userData (shapes sc ! i)) +
     sin (t * speed (userData (shapes sc ! i)) + offset (userData (shapes sc ! i))) * 1.5"
proof -
  assume i: "i < length (shapes sc)"
  then have len: "i < length (shapes (run es sc))"
    by (simp add: length_shapes_run)
  have "shapes (run (es @ [Frame t]) sc) ! i = animate_shape t (shapes (run es sc) ! i)"
    using len by (simp add: run_append shapes_tick)
  then show ?thesis
    using i by (simp add: position_y_animate_shape userData_run)
qed

lemma globe_rotation_tick: "vec_y (rotation (globe (tick t sc))) = t * 0.05"
  by (simp add: tick_def)

lemma particles_rotation_tick:
  "vec_y (rotation (particlesMesh (tick t sc))) = - t * 0.02 \<and>
   vec_x (rotation (particlesMesh (tick t sc))) = t * 0.01"
  by (simp add: tick_def)

lemma untouched_by_tick:
  "posArray (tick t sc) = posArray sc \<and> camera (tick t sc) = camera sc \<and>
   renderer (tick t sc) = renderer sc \<and> light (tick t sc) = light sc \<and>
   ambientLight (tick t sc) = ambientLight sc \<and> globeGeometry (tick t sc) = globeGeometry sc"
  by (simp add: tick_def)

lemma untouched_by_onResize:
  "posArray (onResize w h sc) = posArray sc \<and> globe (onResize w h sc) = globe sc \<and>
   particlesMesh (onResize w h sc) = particlesMesh sc \<and> shapes (onResize w h sc) = shapes sc \<and>
   light (onResize w h sc) = light sc \<and> ambientLight (onResize w h sc) = ambientLight sc \<and>
   globeGeometry (onResize w h sc) = globeGeometry sc \<and>
   pixelRatio (renderer (onResize w h sc)) = pixelRatio (renderer sc)"
  by (simp add: onResize_def setSize_def)

lemma camera_onResize:
  "aspect (camera (onResize w h sc)) = js_div (of_int w) (of_int h) \<and>
   projectionMatrix (camera (onResize w h sc)) =
     Perspective (fov (camera sc)) (js_div (of_int w) (of_int h)) (near (camera sc)) (far (camera sc)) \<and>
   fov (camera (onResize w h sc)) = fov (camera sc) \<and>
   near (camera (onResize w h sc)) = near (camera sc) \<and>
   far (camera (onResize w h sc)) = far (camera sc) \<and>
   camera_z (camera (onResize w h sc)) = camera_z (camera sc)"
  by (simp add: onResize_def updateProjectionMatrix_def)

lemma renderer_onResize:
  "width (renderer (onResize w h sc)) = w \<and> height (renderer (onResize w h sc)) = h"
  by (simp add: onResize_def setSize_def)

lemma onResize_overwrites: "onResize w h (onResize w' h' sc) = onResize w h sc"
  by (simp add: onResize_def updateProjectionMatrix_def setSize_def)

lemma pixelRatio_build_scene:
  "pixelRatio (renderer (build_scene win rnd)) = min (devicePixelRatio win) 2"
  by (simp add: build_scene_def setPixelRatio_def)

lemma posArray_handle: "posArray (handle e sc) = posArray sc"
  by (cases e) (simp_all add: untouched_by_tick untouched_by_onResize)

lemma posArray_run: "posArray (run es sc) = posArray sc"
  by (induction es arbitrary: sc) (simp_all add: posArray_handle)

lemma js_div_nonzero: "b \<noteq> 0 \<Longrightarrow> js_div a b = Finite (a / b)"
  by (simp add: js_div_def)

lemma canvas_starts_loop:
  "querySelector doc ''#bg-canvas'' = Some c \<Longrightarrow>
   initThreeBackground doc win rnd t0 p =
     p\<lparr>background := Some (tick t0 (build_scene win rnd)),
       frames_rendered := Suc (frames_rendered p),
       frames_requested := Suc (frames_requested p),
       resize_listeners := Suc (resize_listeners p)\<rparr>"
  by (simp add: initThreeBackground_def tick_callback_def Let_def)

lemma background_dispatch:
  "background (dispatch e p) = map_option (handle e) (background p)"
  by (cases e) (simp_all add: tick_callback_def split: option.splits)

lemma background_run_page:
  "background (run_page es p) = map_option (run es) (background p)"
proof (induction es arbitrary: p)
  case Nil
  show ?case by (simp add: option.map_ident)
next
  case (Cons e es)
  show ?case
    by (simp add: Cons.IH background_dispatch option.map_comp comp_def)
qed

lemma unit_drawsD: "unit_draws rnd \<Longrightarrow> 0 \<le> rnd k \<and> rnd k < 1"
  by (simp add: unit_draws_def)

lemma unit_draws_half: "unit_draws draws_half"
  by (simp add: unit_draws_def draws_half_def)

lemma unit_draws_low: "unit_draws draws_low"
  by (simp add: unit_draws_def draws_low_def)

lemma userData_create_shape:
  "userData (create_shape rnd i) =
     \<lparr>initialY = (rnd (2100 + 5 * i + 1) - 0.5) * 10,
      speed = fl64 (0.5 + fl64 (rnd (2100 + 5 * i + 2) * 0.5)),
      offset = rnd (2100 + 5 * i + 3) * pi * 2,
      rotSpeed = (rnd (2100 + 5 * i + 4) - 0.5) * 0.02\<rparr>"
  by (simp add: create_shape_def Let_def particlesCount_def)

lemma position_create_shape:
  "position (create_shape rnd i) =
     \<lparr>vec_x = cos (shape_angle i) * shape_radius rnd i,
      vec_y = (rnd (2100 + 5 * i + 1) - 0.5) * 10,
      vec_z = sin (shape_angle i) * shape_radius rnd i\<rparr>"
  by (simp add: create_shape_def Let_def particlesCount_def)

lemma rotation_create_shape: "rotation (create_shape rnd i) = zero3"
  by (simp add: create_shape_def Let_def)

lemma shape_radius_range:
  assumes "unit_draws rnd"
  shows "shape_radius rnd i = fl64 (15 + fl64 (rnd (2100 + 5 * i) * 5)) \<and>
         15 \<le> shape_radius rnd i \<and> shape_radius rnd i \<le> 20"
proof -
  let ?u = "rnd (2100 + 5 * i)"
  have u: "0 \<le> ?u \<and> ?u < 1"
    using assms by (rule unit_drawsD)
  have "of_int 0 \<le> ?u * 5 \<and> ?u * 5 \<le> of_int 5"
    using u by simp
  then have "of_int 0 \<le> fl64 (?u * 5) \<and> fl64 (?u * 5) \<le> of_int 5"
    by (intro fl64_between_ints) simp_all
  then have "of_int 15 \<le> 15 + fl64 (?u * 5) \<and> 15 + fl64 (?u * 5) \<le> of_int 20"
    by simp
  then have "of_int 15 \<le> fl64 (15 + fl64 (?u * 5)) \<and> fl64 (15 + fl64 (?u * 5)) \<le> of_int 20"
    by (intro fl64_between_ints) simp_all
  then show ?thesis
    by (simp add: shape_radius_def particlesCount_def)
qed

lemma speed_range:
  assumes "0 \<le> u" and "u < 1"
  shows "0.5 \<le> fl64 (0.5 + fl64 (u * 0.5)) \<and> fl64 (0.5 + fl64 (u * 0.5)) \<le> 1"
proof -
  have "of_int 0 * 2 powi 0 \<le> u * 0.5"
    using assms by simp
  then have "of_int 0 * 2 powi 0 \<le> fl64 (u * 0.5)"
    by (rule fl64_ge) simp_all
  then have lo: "of_int 1 * 2 powi (- 1) \<le> 0.5 + fl64 (u * 0.5)"
    by simp
  have "u * 0.5 \<le> of_int 1 * 2 powi (- 1)"
    using assms by simp
  then have "fl64 (u * 0.5) \<le> of_int 1 * 2 powi (- 1)"
    by (rule fl64_le) simp_all
  then have hi: "0.5 + fl64 (u * 0.5) \<le> of_int 1 * 2 powi 0"
    by simp
  have "of_int 1 * 2 powi (- 1) \<le> fl64 (0.5 + fl64 (u * 0.5))"
    using lo by (rule fl64_ge) simp_all
  moreover have "fl64 (0.5 + fl64 (u * 0.5)) \<le> of_int 1 * 2 powi 0"
    using hi by (rule fl64_le) simp_all
  ultimately show ?thesis
    by simp
qed

lemma position_entry_range:
  assumes "0 \<le> u" and "u < 1"
  shows "- 50 \<le> fl32 (fl64 (fl64 (u - 0.5) * 100)) \<and> fl32 (fl64 (fl64 (u - 0.5) * 100)) \<le> 50"
proof -
  have "- (1 / 2) \<le> u - 0.5 \<and> u - 0.5 \<le> 1 / 2"
    using assms by simp
  then have "- (1 / 2) \<le> fl64 (u - 0.5) \<and> fl64 (u - 0.5) \<le> 1 / 2"
    by (intro fl64_between_halves) simp_all
  then have "of_int (- 50) \<le> fl64 (u - 0.5) * 100 \<and> fl64 (u - 0.5) * 100 \<le> of_int 50"
    by simp
  then have "of_int (- 50) \<le> fl64 (fl64 (u - 0.5) * 100) \<and>
      fl64 (fl64 (u - 0.5) * 100) \<le> of_int 50"
    by (intro fl64_between_ints) simp_all
  then have "of_int (- 50) \<le> fl32 (fl64 (fl64 (u - 0.5) * 100)) \<and>
      fl32 (fl64 (fl64 (u - 0.5) * 100)) \<le> of_int 50"
    by (intro fl32_between_ints) simp_all
  then show ?thesis
    by simp
qed

lemma bob_bounded_create_shape: "bob_bounded (create_shape rnd i)"
  by (simp add: bob_bounded_def userData_create_shape position_create_shape)

lemma bob_bounded_animate_shape: "bob_bounded (animate_shape t s)"
proof -
  have "\<bar>sin (t * speed (userData s) + offset (userData s))\<bar> \<le> 1"
    by (rule abs_sin_le_one)
  then show ?thesis
    by (simp add: bob_bounded_def position_y_animate_shape userData_animate_shape abs_mult)
qed

lemma bob_bounded_handle:
  "i < length (shapes sc) \<Longrightarrow> bob_bounded (shapes sc ! i) \<Longrightarrow> bob_bounded (shapes (handle e sc) ! i)"
  by (cases e) (simp_all add: shapes_tick shapes_onResize bob_bounded_animate_shape)

lemma bob_bounded_run:
  "i < length (shapes sc) \<Longrightarrow> bob_bounded (shapes sc ! i) \<Longrightarrow> bob_bounded (shapes (run es sc) ! i)"
proof (induction es arbitrary: sc)
  case Nil
  then show ?case by simp
next
  case (Cons e es)
  have "i < length (shapes (handle e sc))"
    using Cons.prems(1) by (simp add: length_shapes_handle)
  moreover have "bob_bounded (shapes (handle e sc) ! i)"
    using Cons.prems by (rule bob_bounded_handle)
  ultimately show ?case
    using Cons.IH by simp
qed

lemma posArray_build_scene:
  "posArray (build_scene win rnd) =
     map (\<lambda>i. fl32 (fl64 (fl64 (rnd i - 0.5) * 100))) [0..<2100]"
  by (simp add: build_scene_def fill_posArray_def particlesCount_def)

lemma aspect_run_resize:
  "aspect (camera (run (es @ [Resize w h]) sc)) = js_div (of_int w) (of_int h)"
  by (simp add: run_append camera_onResize)

lemma sin_three_quarter_turn: "sin (3 / 4 * pi * 2) = - 1"
proof -
  have "3 / 4 * pi * 2 = 3 / 2 * pi"
    by simp
  then show ?thesis
    by (simp only: sin_3over2_pi)
qed

lemma shape0_low:
  "initialY (userData (shapes (build_scene win draws_low) ! 0)) = - 5 \<and>
   offset (userData (shapes (build_scene win draws_low) ! 0)) = 3 / 4 * pi * 2 \<and>
   rotSpeed (userData (shapes (build_scene win draws_low) ! 0)) = - (1 / 100)"
  by (simp add: nth_shapes_build_scene userData_create_shape draws_low_def particlesCount_def)

lemma shape0_half:
  "initialY (userData (shapes (build_scene win draws_half) ! 0)) = 0 \<and>
   offset (userData (shapes (build_scene win draws_half) ! 0)) = pi \<and>
   rotSpeed (userData (shapes (build_scene win draws_half) ! 0)) = 0"
  by (simp add: nth_shapes_build_scene userData_create_shape draws_half_def)

lemma unit_draws_high: "unit_draws draws_high"
  by (simp add: unit_draws_def draws_high_def)

lemma speed_of_shape:
  "i < 5 \<Longrightarrow>
   speed (userData (shapes (build_scene win rnd) ! i)) =
     fl64 (0.5 + fl64 (rnd (2100 + 5 * i + 2) * 0.5))"
  by (simp add: nth_shapes_build_scene userData_create_shape)

lemma posArray_nth:
  "k < 2100 \<Longrightarrow>
   posArray (build_scene win rnd) ! k = fl32 (fl64 (fl64 (rnd k - 0.5) * 100))"
  by (simp add: posArray_build_scene del: upt_Suc)

lemma shape_radius_high: "shape_radius draws_high 0 = 20"
proof -
  have d: "draws_high (particlesCount * 3 + 5 * 0) = 1 - 1 / 2 ^ 52"
    by (simp add: draws_high_def particlesCount_def)
  show ?thesis
    by (simp only: shape_radius_def d fl64_five_minus fl64_twenty_minus)
qed

lemma speed_high: "speed (userData (shapes (build_scene win draws_high) ! 0)) = 1"
proof -
  have d: "draws_high (2100 + 5 * 0 + 2) = 1 - 1 / 2 ^ 53"
    by (simp add: draws_high_def particlesCount_def)
  have "speed (userData (shapes (build_scene win draws_high) ! 0)) =
      fl64 (0.5 + fl64 (draws_high (2100 + 5 * 0 + 2) * 0.5))"
    by (rule speed_of_shape) simp
  then show ?thesis
    by (simp only: d fl64_half_minus fl64_one_minus)
qed

lemma position_entry_high:
  assumes "k < 2100"
  shows "posArray (build_scene win draws_high) ! k = 50"
proof -
  have d: "draws_high k = 1 - 1 / 2 ^ 26"
    using assms by (simp add: draws_high_def particlesCount_def)
  have "posArray (build_scene win draws_high) ! k = fl32 (fl64 (fl64 (draws_high k - 0.5) * 100))"
    using assms by (rule posArray_nth)
  then show ?thesis
    by (simp only: d fl64_near_half fl64_near_fifty fl32_fifty)
qed

lemma shape_radius_half: "shape_radius draws_half i = 35 / 2"
proof -
  have a: "fl64 (1 / 2 * 5) = 5 / 2"
    using fl64_exact [of "1 / 2 * 5" 5 "- 1"] by simp
  have b: "fl64 (15 + 5 / 2) = 35 / 2"
    using fl64_exact [of "15 + 5 / 2" 35 "- 1"] by simp
  show ?thesis
    by (simp only: shape_radius_def draws_half_def a b)
qed

lemma speed_half:
  assumes "i < 5"
  shows "speed (userData (shapes (build_scene win draws_half) ! i)) = 3 / 4"
proof -
  have a: "fl64 (1 / 2 * 0.5) = 1 / 4"
    using fl64_exact [of "1 / 2 * 0.5" 1 "- 2"] by simp
  have b: "fl64 (0.5 + 1 / 4) = 3 / 4"
    using fl64_exact [of "0.5 + 1 / 4" 3 "- 2"] by simp
  have "speed (userData (shapes (build_scene win draws_half) ! i)) =
      fl64 (0.5 + fl64 (draws_half (2100 + 5 * i + 2) * 0.5))"
    using assms by (rule speed_of_shape)
  then show ?thesis
    by (simp only: draws_half_def a b)
qed

lemma rotation_from_rest:
  assumes "i < 5"
  shows "vec_x (rotation (shapes (run_ticks ts (build_scene win rnd)) ! i)) =
           repeated_add (rotSpeed (userData (shapes (build_scene win rnd) ! i))) (length ts) \<and>
         vec_y (rotation (shapes (run_ticks ts (build_scene win rnd)) ! i)) =
           repeated_add (rotSpeed (userData (shapes (build_scene win rnd) ! i))) (length ts)"
proof -
  have len: "i < length (shapes (build_scene win rnd))"
    using assms by (simp add: length_shapes_build_scene)
  have "rotation (shapes (build_scene win rnd) ! i) = zero3"
    using assms by (simp add: nth_shapes_build_scene rotation_create_shape)
  then have "vec_x (rotation (shapes (build_scene win rnd) ! i)) = 0"
    and "vec_y (rotation (shapes (build_scene win rnd) ! i)) = 0"
    by (simp_all add: zero3_def)
  then show ?thesis
    by (rule rotation_run_ticks [OF len])
qed

lemma background_after_init:
  assumes "querySelector doc ''#bg-canvas'' = Some c"
  shows "background (run_page es (initThreeBackground doc win rnd t0 p)) =
           Some (run (Frame t0 # es) (build_scene win rnd))"
  by (simp add: background_run_page canvas_starts_loop [OF assms])

lemma counters_after_init:
  assumes "querySelector doc ''#bg-canvas'' = Some c"
  shows "frames_rendered (initThreeBackground doc win rnd t0 new_page) = 1 \<and>
         frames_requested (initThreeBackground doc win rnd t0 new_page) = 1 \<and>
         resize_listeners (initThreeBackground doc win rnd t0 new_page) = 1"
  by (simp add: canvas_starts_loop [OF assms] new_page_def)

lemma home_page_has_canvas: "querySelector home_page ''#bg-canvas'' = Some (Element ''canvas'')"
  by (simp add: querySelector_def home_page_def)

section \<open>The claims\<close>

text \<open>
  Claim C1, as the code has it. After \<open>n\<close> iterations from construction the rotation of
  every shape about X and about Y is the sum that \<open>n\<close> additions of \<open>rotSpeed\<close> in
  double arithmetic leave, starting from 0 (the angles are equal, so they are equal
  modulo \<open>2 * pi\<close>), whatever the clock readings were: it depends on \<open>n\<close> and \<open>rotSpeed\<close>
  alone. For a \<open>rotSpeed\<close> of normal size (at least \<open>2 ^ -1022\<close> in magnitude, so not
  0) and up to \<open>2 ^ 53\<close> iterations it is within \<open>n\<^sup>2 * \<bar>rotSpeed\<bar> / 2 ^ 53\<close> of
  \<open>n * rotSpeed\<close>; it need not be equal, as \<open>six_additions_exceed_product\<close> shows. Two
  runs that end with the same reading \<open>t\<close> leave the same height. Two runs of
  different numbers of iterations, neither above \<open>2 ^ 52\<close>, leave different rotations
  when \<open>rotSpeed\<close> is of normal size.
\<close>

theorem shape_rotation_counts_frames:
  assumes "i < 5"
  shows "vec_x (rotation (shapes (run_ticks ts (build_scene win rnd)) ! i)) =
           repeated_add (rotSpeed (userData (shapes (build_scene win rnd) ! i))) (length ts) \<and>
    vec_y (rotation (shapes (run_ticks ts (build_scene win rnd)) ! i)) =
           repeated_add (rotSpeed (userData (shapes (build_scene win rnd) ! i))) (length ts) \<and>
    (2 powi (- 1022) \<le> \<bar>rotSpeed (userData (shapes (build_scene win rnd) ! i))\<bar> \<and>
     length ts \<le> 2 ^ 53 \<longrightarrow>
       \<bar>vec_x (rotation (shapes (run_ticks ts (build_scene win rnd)) ! i)) -
          real (length ts) * rotSpeed (userData (shapes (build_scene win rnd) ! i))\<bar> \<le>
       (real (length ts))\<^sup>2 *
         (\<bar>rotSpeed (userData (shapes (build_scene win rnd) ! i))\<bar> / 2 ^ 53) \<and>
       \<bar>vec_y (rotation (shapes (run_ticks ts (build_scene win rnd)) ! i)) -
          real (length ts) * rotSpeed (userData (shapes (build_scene win rnd) ! i))\<bar> \<le>
       (real (length ts))\<^sup>2 *
         (\<bar>rotSpeed (userData (shapes (build_scene win rnd) ! i))\<bar> / 2 ^ 53)) \<and>
    vec_y (position (shapes (run_ticks (ts @ [t]) (build_scene win rnd)) ! i)) =
      vec_y (position (shapes (run_ticks (ts' @ [t]) (build_scene win rnd)) ! i)) \<and>
    (2 powi (- 1022) \<le> \<bar>rotSpeed (userData (shapes (build_scene win rnd) ! i))\<bar> \<and>
     length ts \<le> 2 ^ 52 \<and> length ts' \<le> 2 ^ 52 \<and> length ts \<noteq> length ts' \<longrightarrow>
       vec_x (rotation (shapes (run_ticks ts (build_scene win rnd)) ! i)) \<noteq>
       vec_x (rotation (shapes (run_ticks ts' (build_scene win rnd)) ! i)) \<and>
       vec_y (rotation (shapes (run_ticks ts (build_scene win rnd)) ! i)) \<noteq>
       vec_y (rotation (shapes (run_ticks ts' (build_scene win rnd)) ! i)))"
proof -
  let ?sc = "build_scene win rnd"
  let ?r = "rotSpeed (userData (shapes ?sc ! i))"
  have len: "i < length (shapes ?sc)"
    using assms by (simp add: length_shapes_build_scene)
  note rot = rotation_from_rest [OF assms, of ts win rnd]
  note rot' = rotation_from_rest [OF assms, of ts' win rnd]
  have pos: "vec_y (position (shapes (run_ticks (ts @ [t]) ?sc) ! i)) =
      vec_y (position (shapes (run_ticks (ts' @ [t]) ?sc) ! i))"
    using position_y_last_frame [OF len, of "map Frame ts" t]
      position_y_last_frame [OF len, of "map Frame ts'" t]
    by (simp add: run_ticks_def)
  have drift: "2 powi (- 1022) \<le> \<bar>?r\<bar> \<and> length ts \<le> 2 ^ 53 \<longrightarrow>
      \<bar>repeated_add ?r (length ts) - real (length ts) * ?r\<bar> \<le>
      (real (length ts))\<^sup>2 * (\<bar>?r\<bar> / 2 ^ 53)"
    using repeated_add_drift [of ?r "length ts"] by blast
  have apart: "2 powi (- 1022) \<le> \<bar>?r\<bar> \<and> length ts \<le> 2 ^ 52 \<and> length ts' \<le> 2 ^ 52 \<and>
      length ts \<noteq> length ts' \<longrightarrow>
      repeated_add ?r (length ts) \<noteq> repeated_add ?r (length ts')"
    using repeated_add_distinct [of ?r "length ts" "length ts'"] by blast
  show ?thesis
    using rot rot' pos drift apart by (simp only:) blast
qed

theorem shape_rotation_counts_frames_witness:
  "(0::nat) < 5 \<and>
   2 powi (- 1022) \<le> \<bar>rotSpeed (userData (shapes (build_scene desktop draws_low) ! 0))\<bar> \<and>
   length [0::real, 1] \<le> 2 ^ 52 \<and> length [0::real, 1 / 2, 1] \<le> 2 ^ 52 \<and>
   length [0::real, 1] \<noteq> length [0::real, 1 / 2, 1] \<and>
   vec_x (rotation (shapes (run_ticks [0, 1] (build_scene desktop draws_low)) ! 0)) =
     fl64 (fl64 (- (1 / 100)) + - (1 / 100)) \<and>
   \<bar>vec_x (rotation (shapes (run_ticks [0, 1] (build_scene desktop draws_low)) ! 0)) -
      2 * - (1 / 100)\<bar> \<le> 4 * ((1 / 100) / 2 ^ 53) \<and>
   vec_x (rotation (shapes (run_ticks [0, 1] (build_scene desktop draws_low)) ! 0)) \<noteq>
   vec_x (rotation (shapes (run_ticks [0, 1 / 2, 1] (build_scene desktop draws_low)) ! 0)) \<and>
   vec_y (position (shapes (run_ticks ([0] @ [1]) (build_scene desktop draws_low)) ! 0)) =
   vec_y (position (shapes (run_ticks ([0, 1 / 2] @ [1]) (build_scene desktop draws_low)) ! 0))"
proof -
  have i: "(0::nat) < 5" by simp
  note a = shape_rotation_counts_frames [OF i, of "[0, 1]" desktop draws_low 1 "[0, 1 / 2, 1]"]
  note c = shape_rotation_counts_frames [OF i, of "[0]" desktop draws_low 1 "[0, 1 / 2]"]
  have r: "rotSpeed (userData (shapes (build_scene desktop draws_low) ! 0)) = - (1 / 100)"
    by (simp add: shape0_low)
  have n: "2 powi (- 1022) \<le> \<bar>rotSpeed (userData (shapes (build_scene desktop draws_low) ! 0))\<bar>"
    by (simp add: r)
  have l: "length [0::real, 1] \<le> 2 ^ 52" "length [0::real, 1 / 2, 1] \<le> 2 ^ 52"
    "length [0::real, 1] \<le> 2 ^ 53" "length [0::real, 1] \<noteq> length [0::real, 1 / 2, 1]"
    by simp_all
  have p: "vec_y (position (shapes (run_ticks ([0] @ [1]) (build_scene desktop draws_low)) ! 0)) =
      vec_y (position (shapes (run_ticks ([0, 1 / 2] @ [1]) (build_scene desktop draws_low)) ! 0))"
    using c by blast
  have x2: "vec_x (rotation (shapes (run_ticks [0, 1] (build_scene desktop draws_low)) ! 0)) =
      fl64 (fl64 (- (1 / 100)) + - (1 / 100))"
    using a by (simp add: r)
  have "\<bar>vec_x (rotation (shapes (run_ticks [0, 1] (build_scene desktop draws_low)) ! 0)) -
      real (length [0::real, 1]) * rotSpeed (userData (shapes (build_scene desktop draws_low) ! 0))\<bar> \<le>
      (real (length [0::real, 1]))\<^sup>2 *
        (\<bar>rotSpeed (userData (shapes (build_scene desktop draws_low) ! 0))\<bar> / 2 ^ 53)"
    using a n l(3) by blast
  then have d: "\<bar>vec_x (rotation (shapes (run_ticks [0, 1] (build_scene desktop draws_low)) ! 0)) -
      2 * - (1 / 100)\<bar> \<le> 4 * ((1 / 100) / 2 ^ 53)"
    by (simp add: r)
  have ne: "vec_x (rotation (shapes (run_ticks [0, 1] (build_scene desktop draws_low)) ! 0)) \<noteq>
      vec_x (rotation (shapes (run_ticks [0, 1 / 2, 1] (build_scene desktop draws_low)) ! 0))"
    using a n l(1,2,4) by blast
  show ?thesis
    using i n l p x2 d ne by blast
qed

text \<open>
  When the draw for \<open>rotSpeed\<close> is \<open>1 / 2\<close> the rate is 0, and a run of two frames and
  a run of three frames over the same time leave the same rotation.
\<close>

theorem still_shape_same_rotation_at_any_frame_rate:
  "unit_draws draws_half \<and> length [0::real, 1] \<noteq> length [0::real, 1 / 2, 1] \<and>
   vec_x (rotation (shapes (run_ticks [0, 1] (build_scene desktop draws_half)) ! 0)) =
   vec_x (rotation (shapes (run_ticks [0, 1 / 2, 1] (build_scene desktop draws_half)) ! 0)) \<and>
   vec_y (rotation (shapes (run_ticks [0, 1] (build_scene desktop draws_half)) ! 0)) =
   vec_y (rotation (shapes (run_ticks [0, 1 / 2, 1] (build_scene desktop draws_half)) ! 0))"
proof -
  have i: "(0::nat) < 5" by simp
  show ?thesis
    using rotation_from_rest [OF i, of "[0, 1]" desktop draws_half]
      rotation_from_rest [OF i, of "[0, 1 / 2, 1]" desktop draws_half] unit_draws_half
    by (simp only: shape0_half repeated_add_zero) simp
qed

text \<open>
  Claim C2. After an iteration that reads \<open>t\<close> from the clock, the globe's rotation
  about Y is \<open>0.05 * t\<close>, the point cloud's rotation about Y is \<open>- 0.02 * t\<close> and
  about X is \<open>0.01 * t\<close>, whatever state the iteration starts from and whatever
  events (frames or resizes) came before it.
\<close>

theorem globe_and_cloud_rotation_from_time:
  "vec_y (rotation (globe (run (es @ [Frame t]) sc))) = 0.05 * t \<and>
   vec_y (rotation (particlesMesh (run (es @ [Frame t]) sc))) = - 0.02 * t \<and>
   vec_x (rotation (particlesMesh (run (es @ [Frame t]) sc))) = 0.01 * t \<and>
   vec_y (rotation (globe (tick t sc))) = 0.05 * t \<and>
   vec_y (rotation (particlesMesh (tick t sc))) = - 0.02 * t \<and>
   vec_x (rotation (particlesMesh (tick t sc))) = 0.01 * t"
  by (simp add: run_append globe_rotation_tick particles_rotation_tick)

text \<open>
  Claim C3. An iteration that reads \<open>t\<close> sets the height of every floating shape to
  \<open>initialY + 1.5 * sin (speed * t + offset)\<close>, which lies between \<open>initialY - 1.5\<close>
  and \<open>initialY + 1.5\<close>; the shape's stored parameters are the same after it.
\<close>

theorem shape_bobs_on_sine:
  assumes "i < length (shapes sc)"
  shows "vec_y (position (shapes (tick t sc) ! i)) =
           initialY (userData (shapes sc ! i)) +
           1.5 * sin (speed (userData (shapes sc ! i)) * t + offset (userData (shapes sc ! i))) \<and>
         initialY (userData (shapes sc ! i)) - 1.5 \<le> vec_y (position (shapes (tick t sc) ! i)) \<and>
         vec_y (position (shapes (tick t sc) ! i)) \<le> initialY (userData (shapes sc ! i)) + 1.5 \<and>
         userData (shapes (tick t sc) ! i) = userData (shapes sc ! i)"
proof -
  let ?d = "userData (shapes sc ! i)"
  let ?a = "speed ?d * t + offset ?d"
  have nth: "shapes (tick t sc) ! i = animate_shape t (shapes sc ! i)"
    using assms by (simp add: shapes_tick)
  have y: "vec_y (position (shapes (tick t sc) ! i)) = initialY ?d + 1.5 * sin ?a"
    by (simp add: nth position_y_animate_shape mult.commute)
  have lo: "- 1 \<le> sin ?a" and hi: "sin ?a \<le> 1"
    by simp_all
  have "initialY ?d - 1.5 \<le> initialY ?d + 1.5 * sin ?a"
    using lo by simp
  moreover have "initialY ?d + 1.5 * sin ?a \<le> initialY ?d + 1.5"
    using hi by simp
  moreover have "userData (shapes (tick t sc) ! i) = ?d"
    by (simp add: nth userData_animate_shape)
  ultimately show ?thesis
    using y by simp
qed

theorem shape_bobs_on_sine_witness:
  "(0::nat) < length (shapes (build_scene desktop draws_half)) \<and>
   vec_y (position (shapes (tick 0 (build_scene desktop draws_half)) ! 0)) = 0 \<and>
   userData (shapes (tick 0 (build_scene desktop draws_half)) ! 0) =
     userData (shapes (build_scene desktop draws_half) ! 0)"
proof -
  have len: "(0::nat) < length (shapes (build_scene desktop draws_half))"
    by (simp add: length_shapes_build_scene)
  show ?thesis
    using len shape_bobs_on_sine [OF len, of 0] by (simp add: shape0_half)
qed

text \<open>
  Claim C4, as the code has it. The listener has no guard: after any events, a resize
  to \<open>w\<close> by \<open>h\<close> leaves the camera's aspect at the JavaScript quotient of \<open>w\<close> and
  \<open>h\<close>. For positive \<open>w\<close> and \<open>h\<close> that is a positive finite number; for \<open>(0, 0)\<close> it
  is \<open>NaN\<close>, for a positive width and height 0 it is \<open>Infinity\<close>, and for width 0 and
  a height other than 0 it is 0.
\<close>

theorem resize_aspect_is_plain_quotient:
  "aspect (camera (run (es @ [Resize w h]) sc)) = js_div (of_int w) (of_int h) \<and>
   (0 < w \<and> 0 < h \<longrightarrow>
      aspect (camera (run (es @ [Resize w h]) sc)) = Finite (of_int w / of_int h) \<and>
      (0::real) < of_int w / of_int h) \<and>
   (w = 0 \<and> h = 0 \<longrightarrow> aspect (camera (run (es @ [Resize w h]) sc)) = NaN) \<and>
   (0 < w \<and> h = 0 \<longrightarrow> aspect (camera (run (es @ [Resize w h]) sc)) = PosInfinity) \<and>
   (w = 0 \<and> h \<noteq> 0 \<longrightarrow> aspect (camera (run (es @ [Resize w h]) sc)) = Finite 0)"
  by (simp add: aspect_run_resize js_div_def)

theorem resize_aspect_is_plain_quotient_witness:
  "aspect (camera (run ([Resize 0 0] @ [Resize 800 600]) (build_scene desktop draws_half))) =
     Finite (800 / 600) \<and>
   aspect (camera (run ([Frame 1] @ [Resize 0 0]) (build_scene desktop draws_half))) = NaN \<and>
   aspect (camera (run ([] @ [Resize 800 0]) (build_scene desktop draws_half))) = PosInfinity \<and>
   aspect (camera (run ([] @ [Resize 0 600]) (build_scene desktop draws_half))) = Finite 0"
  using resize_aspect_is_plain_quotient [of "[Resize 0 0]" 800 600 "build_scene desktop draws_half"]
    resize_aspect_is_plain_quotient [of "[Frame 1]" 0 0 "build_scene desktop draws_half"]
    resize_aspect_is_plain_quotient [of "[]" 800 0 "build_scene desktop draws_half"]
    resize_aspect_is_plain_quotient [of "[]" 0 600 "build_scene desktop draws_half"]
  by (simp add: js_div_def)

text \<open>A resize to \<open>(0, 0)\<close> leaves the aspect at \<open>NaN\<close>.\<close>

theorem degenerate_resize_gives_NaN:
  "aspect (camera (run [Resize 0 0] (build_scene desktop draws_half))) = NaN"
  using aspect_run_resize [of "[]" 0 0 "build_scene desktop draws_half"]
  by (simp add: js_div_def)

text \<open>
  Claim C5. When the document has no element \<open>#bg-canvas\<close>, \<open>initThreeBackground\<close>
  returns the page as it found it: on a new page no scene exists afterwards, no frame
  was rendered or requested and no resize listener was registered.
\<close>

theorem no_canvas_no_effect:
  assumes "querySelector doc ''#bg-canvas'' = None"
  shows "initThreeBackground doc win rnd t0 p = p \<and>
         background (initThreeBackground doc win rnd t0 new_page) = None \<and>
         frames_rendered (initThreeBackground doc win rnd t0 new_page) = 0 \<and>
         frames_requested (initThreeBackground doc win rnd t0 new_page) = 0 \<and>
         resize_listeners (initThreeBackground doc win rnd t0 new_page) = 0"
  using assms by (simp add: initThreeBackground_def new_page_def)

theorem no_canvas_no_effect_witness:
  "querySelector other_page ''#bg-canvas'' = None \<and>
   initThreeBackground other_page desktop draws_half 0 new_page = new_page \<and>
   frames_requested (initThreeBackground other_page desktop draws_half 0 new_page) = 0"
proof -
  have h: "querySelector other_page ''#bg-canvas'' = None"
    by (simp add: querySelector_def other_page_def)
  show ?thesis
    using h no_canvas_no_effect [OF h, of desktop draws_half 0 new_page] by blast
qed

text \<open>
  Claim C6, as the code has it. With every draw of \<open>Math.random\<close> in \<open>[0, 1)\<close>, each of the
  five shapes is built with \<open>speed = 0.5 + u * 0.5\<close> in \<open>[0.5, 1]\<close>,
  \<open>offset = u * 2 * pi\<close> in \<open>[0, 2 * pi)\<close>, \<open>rotSpeed = (u - 0.5) * 0.02\<close> in
  \<open>[- 0.01, 0.01)\<close> and a placement radius \<open>15 + u * 5\<close> in \<open>[15, 20]\<close>, the speed and the
  radius as doubles, each \<open>u\<close> a draw of its own (shape \<open>i\<close> uses the draws
  \<open>2100 + 5 * i\<close> to \<open>2100 + 5 * i + 4\<close>); the radius is the factor of the cosine and
  the sine in the X and Z coordinates, and no sequence of frames and resizes changes
  these coordinates or the stored parameters.
\<close>

theorem shape_parameters_in_range:
  assumes "unit_draws rnd" and "i < 5"
  shows "length (shapes (build_scene win rnd)) = 5 \<and>
    speed (userData (shapes (build_scene win rnd) ! i)) =
      fl64 (0.5 + fl64 (rnd (2100 + 5 * i + 2) * 0.5)) \<and>
    0.5 \<le> speed (userData (shapes (build_scene win rnd) ! i)) \<and>
    speed (userData (shapes (build_scene win rnd) ! i)) \<le> 1 \<and>
    offset (userData (shapes (build_scene win rnd) ! i)) = rnd (2100 + 5 * i + 3) * (2 * pi) \<and>
    0 \<le> offset (userData (shapes (build_scene win rnd) ! i)) \<and>
    offset (userData (shapes (build_scene win rnd) ! i)) < 2 * pi \<and>
    rotSpeed (userData (shapes (build_scene win rnd) ! i)) = (rnd (2100 + 5 * i + 4) - 0.5) * 0.02 \<and>
    - 0.01 \<le> rotSpeed (userData (shapes (build_scene win rnd) ! i)) \<and>
    rotSpeed (userData (shapes (build_scene win rnd) ! i)) < 0.01 \<and>
    shape_radius rnd i = fl64 (15 + fl64 (rnd (2100 + 5 * i) * 5)) \<and>
    15 \<le> shape_radius rnd i \<and> shape_radius rnd i \<le> 20 \<and>
    vec_x (position (shapes (run es (build_scene win rnd)) ! i)) =
      cos (shape_angle i) * shape_radius rnd i \<and>
    vec_z (position (shapes (run es (build_scene win rnd)) ! i)) =
      sin (shape_angle i) * shape_radius rnd i \<and>
    userData (shapes (run es (build_scene win rnd)) ! i) =
      userData (shapes (build_scene win rnd) ! i)"
proof -
  let ?sc = "build_scene win rnd"
  have nth: "shapes ?sc ! i = create_shape rnd i"
    using assms(2) by (rule nth_shapes_build_scene)
  have len: "i < length (shapes ?sc)"
    using assms(2) by (simp add: length_shapes_build_scene)
  note d = userData_create_shape [of rnd i]
  have u2: "0 \<le> rnd (2100 + 5 * i + 2) \<and> rnd (2100 + 5 * i + 2) < 1"
    and u3: "0 \<le> rnd (2100 + 5 * i + 3) \<and> rnd (2100 + 5 * i + 3) < 1"
    and u4: "0 \<le> rnd (2100 + 5 * i + 4) \<and> rnd (2100 + 5 * i + 4) < 1"
    using assms(1) by (simp_all add: unit_drawsD)
  have sp: "speed (userData (shapes ?sc ! i)) = fl64 (0.5 + fl64 (rnd (2100 + 5 * i + 2) * 0.5))"
    by (simp add: nth d)
  have sp_range: "0.5 \<le> speed (userData (shapes ?sc ! i)) \<and> speed (userData (shapes ?sc ! i)) \<le> 1"
    using u2 speed_range [of "rnd (2100 + 5 * i + 2)"] by (simp only: sp)
  have off: "offset (userData (shapes ?sc ! i)) = rnd (2100 + 5 * i + 3) * (2 * pi)"
    by (simp add: nth d)
  have off_lo: "0 \<le> offset (userData (shapes ?sc ! i))"
    using u3 by (simp add: off)
  have "rnd (2100 + 5 * i + 3) * (2 * pi) < 1 * (2 * pi)"
    using u3 by (intro mult_strict_right_mono) simp_all
  then have off_hi: "offset (userData (shapes ?sc ! i)) < 2 * pi"
    by (simp add: off)
  have rs: "rotSpeed (userData (shapes ?sc ! i)) = (rnd (2100 + 5 * i + 4) - 0.5) * 0.02"
    by (simp add: nth d)
  have rs_range: "- 0.01 \<le> rotSpeed (userData (shapes ?sc ! i)) \<and>
      rotSpeed (userData (shapes ?sc ! i)) < 0.01"
    using u4 by (simp add: rs)
  have "frozen_part (shapes (run es ?sc) ! i) = frozen_part (shapes ?sc ! i)"
    using len by (rule frozen_part_run)
  then have xz: "vec_x (position (shapes (run es ?sc) ! i)) = cos (shape_angle i) * shape_radius rnd i \<and>
      vec_z (position (shapes (run es ?sc) ! i)) = sin (shape_angle i) * shape_radius rnd i"
    by (simp add: frozen_part_def nth position_create_shape)
  have kept: "userData (shapes (run es ?sc) ! i) = userData (shapes ?sc ! i)"
    using len by (rule userData_run)
  show ?thesis
    using sp sp_range off off_lo off_hi rs rs_range xz kept
      shape_radius_range [OF assms(1), of i] length_shapes_build_scene [of win rnd]
    by blast
qed

theorem shape_parameters_in_range_witness:
  "unit_draws draws_half \<and> (2::nat) < 5 \<and>
   speed (userData (shapes (build_scene desktop draws_half) ! 2)) = 3 / 4 \<and>
   0.5 \<le> speed (userData (shapes (build_scene desktop draws_half) ! 2)) \<and>
   speed (userData (shapes (build_scene desktop draws_half) ! 2)) \<le> 1 \<and>
   shape_radius draws_half 2 = 35 / 2 \<and>
   15 \<le> shape_radius draws_half 2 \<and> shape_radius draws_half 2 \<le> 20 \<and>
   userData (shapes (run [Frame 1, Resize 800 600, Frame 2] (build_scene desktop draws_half)) ! 2) =
     userData (shapes (build_scene desktop draws_half) ! 2)"
proof -
  have i: "(2::nat) < 5" by simp
  note t = shape_parameters_in_range [OF unit_draws_half i, of desktop
      "[Frame 1, Resize 800 600, Frame 2]"]
  show ?thesis
    using t i unit_draws_half speed_half [OF i, of desktop] shape_radius_half [of 2] by blast
qed

text \<open>
  The upper ends are reached: the draw \<open>1 - 1 / 2 ^ 53\<close> gives the speed
  \<open>0.5 + (0.5 - 1 / 2 ^ 54)\<close>, which lies midway between two doubles and rounds to 1,
  and the draw \<open>1 - 1 / 2 ^ 52\<close> gives the radius \<open>15 + (5 - 1 / 2 ^ 50)\<close>, which rounds
  to 20.
\<close>

theorem shape_speed_and_radius_reach_upper_end:
  "unit_draws draws_high \<and>
   speed (userData (shapes (build_scene desktop draws_high) ! 0)) = 1 \<and>
   shape_radius draws_high 0 = 20"
  using unit_draws_high speed_high [of desktop] shape_radius_high by simp

text \<open>
  Claim C7, as the code has it. Shape \<open>i\<close> of the five is built at the angle
  \<open>2 * pi * i / 5\<close> on a circle in the X/Z plane whose radius lies in \<open>[15, 20]\<close>.
  Whatever frames and resizes follow, its X and Z coordinates keep their values of
  construction, as do its rotation about Z, its geometry and its stored parameters:
  only the Y coordinate and the rotations about X and Y are written by the loop.
\<close>

theorem shapes_keep_their_place:
  assumes "unit_draws rnd" and "i < 5"
  shows "shape_angle i = 2 * pi * real i / 5 \<and>
    vec_x (position (shapes (build_scene win rnd) ! i)) =
      cos (2 * pi * real i / 5) * shape_radius rnd i \<and>
    vec_z (position (shapes (build_scene win rnd) ! i)) =
      sin (2 * pi * real i / 5) * shape_radius rnd i \<and>
    15 \<le> shape_radius rnd i \<and> shape_radius rnd i \<le> 20 \<and>
    vec_x (position (shapes (run es (build_scene win rnd)) ! i)) =
      vec_x (position (shapes (build_scene win rnd) ! i)) \<and>
    vec_z (position (shapes (run es (build_scene win rnd)) ! i)) =
      vec_z (position (shapes (build_scene win rnd) ! i)) \<and>
    vec_z (rotation (shapes (run es (build_scene win rnd)) ! i)) = 0 \<and>
    geom (shapes (run es (build_scene win rnd)) ! i) = geom (shapes (build_scene win rnd) ! i) \<and>
    userData (shapes (run es (build_scene win rnd)) ! i) =
      userData (shapes (build_scene win rnd) ! i) \<and>
    length (shapes (run es (build_scene win rnd))) = 5"
proof -
  let ?sc = "build_scene win rnd"
  have nth: "shapes ?sc ! i = create_shape rnd i"
    using assms(2) by (rule nth_shapes_build_scene)
  have len: "i < length (shapes ?sc)"
    using assms(2) by (simp add: length_shapes_build_scene)
  have ang: "shape_angle i = 2 * pi * real i / 5"
    by (simp add: shape_angle_def)
  have x0: "vec_x (position (shapes ?sc ! i)) = cos (2 * pi * real i / 5) * shape_radius rnd i"
    and z0: "vec_z (position (shapes ?sc ! i)) = sin (2 * pi * real i / 5) * shape_radius rnd i"
    by (simp_all add: nth position_create_shape ang)
  have r0: "vec_z (rotation (shapes ?sc ! i)) = 0"
    by (simp add: nth rotation_create_shape zero3_def)
  have fr: "frozen_part (shapes (run es ?sc) ! i) = frozen_part (shapes ?sc ! i)"
    using len by (rule frozen_part_run)
  have kept: "vec_x (position (shapes (run es ?sc) ! i)) = vec_x (position (shapes ?sc ! i)) \<and>
      vec_z (position (shapes (run es ?sc) ! i)) = vec_z (position (shapes ?sc ! i)) \<and>
      vec_z (rotation (shapes (run es ?sc) ! i)) = 0 \<and>
      geom (shapes (run es ?sc) ! i) = geom (shapes ?sc ! i) \<and>
      userData (shapes (run es ?sc) ! i) = userData (shapes ?sc ! i)"
    using fr r0 by (simp add: frozen_part_def)
  have n: "length (shapes (run es ?sc)) = 5"
    by (simp add: length_shapes_run length_shapes_build_scene)
  have "15 \<le> shape_radius rnd i \<and> shape_radius rnd i \<le> 20"
    using shape_radius_range [OF assms(1), of i] by blast
  then show ?thesis
    using ang x0 z0 kept n by blast
qed

theorem shapes_keep_their_place_witness:
  "unit_draws draws_half \<and> (0::nat) < 5 \<and>
   vec_x (position (shapes (build_scene desktop draws_half) ! 0)) = 35 / 2 \<and>
   vec_z (position (shapes (build_scene desktop draws_half) ! 0)) = 0 \<and>
   vec_x (position (shapes (run [Frame 1, Resize 800 600, Frame 2]
     (build_scene desktop draws_half)) ! 0)) = 35 / 2 \<and>
   vec_z (position (shapes (run [Frame 1, Resize 800 600, Frame 2]
     (build_scene desktop draws_half)) ! 0)) = 0"
proof -
  have i: "(0::nat) < 5" by simp
  note t = shapes_keep_their_place [OF unit_draws_half i, of desktop
      "[Frame 1, Resize 800 600, Frame 2]"]
  show ?thesis
    using t unit_draws_half by (simp add: shape_radius_half)
qed

text \<open>
  The radius 20 is reached: with the draw \<open>1 - 1 / 2 ^ 52\<close> shape 0 is built at
  \<open>x = 20\<close>, \<open>z = 0\<close>, on the circle of radius 20.
\<close>

theorem shape_placed_at_radius_twenty:
  "unit_draws draws_high \<and> shape_radius draws_high 0 = 20 \<and>
   vec_x (position (shapes (build_scene desktop draws_high) ! 0)) = 20 \<and>
   vec_z (position (shapes (build_scene desktop draws_high) ! 0)) = 0"
  using unit_draws_high
  by (simp add: nth_shapes_build_scene position_create_shape shape_radius_high shape_angle_def)

text \<open>
  Claim C8, as the code has it. The position array of the point cloud has 2100
  entries, entry \<open>k\<close> being \<open>(u - 0.5) * 100\<close> for draw \<open>k\<close> of \<open>Math.random\<close>, computed in
  doubles and rounded to single precision, so in \<open>[- 50, 50]\<close>; no frame and no resize
  changes the array.
\<close>

theorem point_cloud_positions_fixed:
  assumes "unit_draws rnd"
  shows "length (posArray (build_scene win rnd)) = 2100 \<and>
    (\<forall>k<2100. posArray (build_scene win rnd) ! k = fl32 (fl64 (fl64 (rnd k - 0.5) * 100))) \<and>
    (\<forall>v\<in>set (posArray (build_scene win rnd)). - 50 \<le> v \<and> v \<le> 50) \<and>
    posArray (run es (build_scene win rnd)) = posArray (build_scene win rnd)"
proof -
  have len: "length (posArray (build_scene win rnd)) = 2100"
    by (simp add: posArray_build_scene)
  have nth: "\<forall>k<2100. posArray (build_scene win rnd) ! k = fl32 (fl64 (fl64 (rnd k - 0.5) * 100))"
    by (simp add: posArray_build_scene del: upt_Suc)
  have "- 50 \<le> fl32 (fl64 (fl64 (rnd k - 0.5) * 100)) \<and>
      fl32 (fl64 (fl64 (rnd k - 0.5) * 100)) \<le> 50" for k
    using unit_drawsD [OF assms, of k] by (intro position_entry_range) simp_all
  then have range: "\<forall>v\<in>set (posArray (build_scene win rnd)). - 50 \<le> v \<and> v \<le> 50"
    by (auto simp add: posArray_build_scene simp del: upt_Suc)
  show ?thesis
    using len nth range posArray_run [of es "build_scene win rnd"] by blast
qed

theorem point_cloud_positions_fixed_witness:
  "unit_draws draws_high \<and>
   length (posArray (build_scene desktop draws_high)) = 2100 \<and>
   posArray (build_scene desktop draws_high) ! 7 = fl32 (fl64 (fl64 (draws_high 7 - 0.5) * 100)) \<and>
   - 50 \<le> posArray (build_scene desktop draws_high) ! 7 \<and>
   posArray (build_scene desktop draws_high) ! 7 \<le> 50 \<and>
   posArray (run [Frame 1, Resize 800 600, Frame 2] (build_scene desktop draws_high)) =
     posArray (build_scene desktop draws_high)"
proof -
  note t = point_cloud_positions_fixed [OF unit_draws_high, of desktop
      "[Frame 1, Resize 800 600, Frame 2]"]
  have e: "posArray (build_scene desktop draws_high) ! 7 =
      fl32 (fl64 (fl64 (draws_high 7 - 0.5) * 100))"
    using t by simp
  have "posArray (build_scene desktop draws_high) ! 7 \<in> set (posArray (build_scene desktop draws_high))"
    using t by (intro nth_mem) simp
  then have b: "- 50 \<le> posArray (build_scene desktop draws_high) ! 7 \<and>
      posArray (build_scene desktop draws_high) ! 7 \<le> 50"
    using t by blast
  show ?thesis
    using t e b unit_draws_high by blast
qed

text \<open>
  The upper end is reached: the draw \<open>1 - 1 / 2 ^ 26\<close> gives the double
  \<open>50 - 25 / 2 ^ 24\<close>, which the \<open>Float32Array\<close> stores as 50.
\<close>

theorem point_cloud_entry_reaches_fifty:
  "unit_draws draws_high \<and> posArray (build_scene desktop draws_high) ! 0 = 50"
  using unit_draws_high position_entry_high [of 0 desktop] by simp

text \<open>
  Claim C9. The resize listener sets the camera's aspect to the quotient of the new
  width and height (the plain quotient when the height is not 0), recomputes the
  projection from it, and sets the renderer's size to the new width and height. The pixel
  ratio, which construction set to the smaller of the device's ratio and 2, the shapes,
  the globe, the point cloud and its positions stay as they were, and a second call
  with the same dimensions changes nothing.
\<close>

theorem resize_sets_projection_only:
  "aspect (camera (onResize w h sc)) = js_div (of_int w) (of_int h) \<and>
   (h \<noteq> 0 \<longrightarrow> aspect (camera (onResize w h sc)) = Finite (of_int w / of_int h)) \<and>
   projectionMatrix (camera (onResize w h sc)) =
     Perspective (fov (camera sc)) (js_div (of_int w) (of_int h)) (near (camera sc)) (far (camera sc)) \<and>
   width (renderer (onResize w h sc)) = w \<and>
   height (renderer (onResize w h sc)) = h \<and>
   pixelRatio (renderer (onResize w h sc)) = pixelRatio (renderer sc) \<and>
   pixelRatio (renderer (build_scene win rnd)) = min (devicePixelRatio win) 2 \<and>
   pixelRatio (renderer (onResize w h (build_scene win rnd))) \<le> 2 \<and>
   shapes (onResize w h sc) = shapes sc \<and>
   globe (onResize w h sc) = globe sc \<and>
   particlesMesh (onResize w h sc) = particlesMesh sc \<and>
   posArray (onResize w h sc) = posArray sc \<and>
   onResize w h (onResize w h sc) = onResize w h sc"
proof -
  have "h \<noteq> 0 \<longrightarrow> aspect (camera (onResize w h sc)) = Finite (of_int w / of_int h)"
    by (simp add: camera_onResize js_div_nonzero)
  moreover have "pixelRatio (renderer (onResize w h (build_scene win rnd))) \<le> 2"
    by (simp add: untouched_by_onResize pixelRatio_build_scene)
  ultimately show ?thesis
    by (simp add: camera_onResize renderer_onResize untouched_by_onResize
        pixelRatio_build_scene onResize_overwrites)
qed

theorem resize_sets_projection_only_witness:
  "aspect (camera (onResize 800 600 (build_scene desktop draws_half))) = Finite (800 / 600) \<and>
   aspect (camera (onResize 1920 1080 (onResize 800 600 (build_scene desktop draws_half)))) =
     Finite (1920 / 1080) \<and>
   width (renderer (onResize 800 600 (build_scene desktop draws_half))) = 800 \<and>
   height (renderer (onResize 800 600 (build_scene desktop draws_half))) = 600 \<and>
   pixelRatio (renderer (onResize 800 600 (build_scene desktop draws_half))) = 2"
  using resize_sets_projection_only [of 800 600 "build_scene desktop draws_half" desktop draws_half]
    resize_sets_projection_only
      [of 1920 1080 "onResize 800 600 (build_scene desktop draws_half)" desktop draws_half]
  by (simp add: desktop_def js_div_def)

text \<open>
  Claim C10, as the code has it. \<open>initialY\<close> is \<open>(u - 0.5) * 10\<close> for a draw \<open>u\<close> of its
  own, so it lies in \<open>[- 5, 5)\<close>, and after any sequence of frames and resizes the height
  of every shape lies in \<open>[- 6.5, 6.5)\<close>: the lower end is included.
\<close>

theorem shape_height_bounded:
  assumes "unit_draws rnd" and "i < 5"
  shows "initialY (userData (shapes (build_scene win rnd) ! i)) = (rnd (2100 + 5 * i + 1) - 0.5) * 10 \<and>
    - 5 \<le> initialY (userData (shapes (build_scene win rnd) ! i)) \<and>
    initialY (userData (shapes (build_scene win rnd) ! i)) < 5 \<and>
    - 6.5 \<le> vec_y (position (shapes (run es (build_scene win rnd)) ! i)) \<and>
    vec_y (position (shapes (run es (build_scene win rnd)) ! i)) < 6.5"
proof -
  let ?sc = "build_scene win rnd"
  let ?init = "initialY (userData (shapes ?sc ! i))"
  let ?pos = "vec_y (position (shapes (run es ?sc) ! i))"
  have nth: "shapes ?sc ! i = create_shape rnd i"
    using assms(2) by (rule nth_shapes_build_scene)
  have len: "i < length (shapes ?sc)"
    using assms(2) by (simp add: length_shapes_build_scene)
  have y0: "?init = (rnd (2100 + 5 * i + 1) - 0.5) * 10"
    by (simp add: nth userData_create_shape)
  have y0_range: "- 5 \<le> ?init \<and> ?init < 5"
    using unit_drawsD [OF assms(1), of "2100 + 5 * i + 1"] by (simp add: y0)
  have "bob_bounded (shapes ?sc ! i)"
    by (simp add: nth bob_bounded_create_shape)
  then have "bob_bounded (shapes (run es ?sc) ! i)"
    using len by (simp add: bob_bounded_run)
  then have "\<bar>?pos - ?init\<bar> \<le> 1.5"
    using len by (simp add: bob_bounded_def userData_run)
  then have "- 6.5 \<le> ?pos \<and> ?pos < 6.5"
    using y0_range by arith
  then show ?thesis
    using y0 y0_range by blast
qed

theorem shape_height_bounded_witness:
  "unit_draws draws_low \<and> (0::nat) < 5 \<and>
   initialY (userData (shapes (build_scene desktop draws_low) ! 0)) = - 5 \<and>
   - 6.5 \<le> vec_y (position (shapes (run [Frame 0, Resize 800 600] (build_scene desktop draws_low)) ! 0)) \<and>
   vec_y (position (shapes (run [Frame 0, Resize 800 600] (build_scene desktop draws_low)) ! 0)) < 6.5"
proof -
  have i: "(0::nat) < 5" by simp
  note t = shape_height_bounded [OF unit_draws_low i, of desktop "[Frame 0, Resize 800 600]"]
  show ?thesis
    using t unit_draws_low by (simp add: shape0_low)
qed

text \<open>
  The lower end is reached: when the draw for the height of shape 0 is 0 and the draw
  for its offset is \<open>3 / 4\<close>, the first frame (clock reading 0) puts the shape at
  \<open>- 5 + sin (3 * pi / 2) * 1.5 = - 6.5\<close>, which is not inside the open interval
  \<open>(- 6.5, 6.5)\<close>.
\<close>

theorem shape_height_reaches_lower_end:
  "unit_draws draws_low \<and>
   vec_y (position (shapes (run [Frame 0] (build_scene desktop draws_low)) ! 0)) = - 6.5"
proof -
  have len: "0 < length (shapes (build_scene desktop draws_low))"
    by (simp add: length_shapes_build_scene)
  have "vec_y (position (shapes (run ([] @ [Frame 0]) (build_scene desktop draws_low)) ! 0)) = - 6.5"
    by (simp only: position_y_last_frame [OF len] shape0_low sin_three_quarter_turn
        mult_zero_left add_0)
  then show ?thesis
    using unit_draws_low by simp
qed

end
